theory Spec2Isabelle
  imports Complex_Main "HOL-Library.Sublist"
begin

section \<open>The F-16 simulation-stepping engine (run\_f16\_sim.py)\<close>

text \<open>
  A shallow embedding of \<^verbatim>\<open>src/code/aerobench/run_f16_sim.py\<close>.

  Python floats are modelled as \<open>real\<close> (rounding is not modelled), numpy vectors as
  \<open>real list\<close>, an exception as the \<open>Inl\<close> branch of a sum, a loop that may run forever
  as a \<^theory_text>\<open>partial_function (option)\<close> whose value \<open>None\<close> means "does not return".
  A method of the engine mutates the object in place, so an exception that leaves the
  method comes with the engine state as the method left it.
  Recorded vectors are values: sharing of one array between the integrator and the
  trajectory is not modelled.
\<close>

subsection \<open>Errors and vectors\<close>

datatype quantity = Alpha | Velocity | Altitude

datatype error =
    SimModelError quantity real
  | AssertionError
  | ValueError
  | IndexError
  | ZeroDivisionError
  | AttributeError

type_synonym vec = "real list"

text \<open>Python's \<^verbatim>\<open>xs[a:b]\<close> for \<open>0 \<le> a\<close>, \<open>0 \<le> b\<close>: never raises, may be short.\<close>

definition slice :: "'a list \<Rightarrow> nat \<Rightarrow> nat \<Rightarrow> 'a list" where
  "slice xs a b = take (b - a) (drop a xs)"

text \<open>A value that is a single aircraft's value or a tuple across aircraft.\<close>

datatype 'a per_aircraft = Single 'a | Tuple "'a list"

subsection \<open>Collaborators that are not part of the file\<close>

text \<open>
  The autopilot object \<^verbatim>\<open>ap\<close> (with its low-level controller \<^verbatim>\<open>ap.llc\<close>), the dynamics
  \<^verbatim>\<open>controlled_f16\<close>, \<^verbatim>\<open>get_state_names\<close> and \<^verbatim>\<open>StateIndex\<close> are imported by the file;
  they are parameters here. \<open>'ap\<close> is the autopilot's mutable state, \<open>'m\<close> its mode label.
  Only \<^verbatim>\<open>advance_discrete_mode\<close> changes the autopilot; \<^verbatim>\<open>get_checked_u_ref\<close> may raise.
  Where the source passes \<^verbatim>\<open>ap.llc\<close>, the model passes the autopilot state.
\<close>

record ('ap, 'm) collaborators =
  n_state_names :: nat
  idx_ALPHA :: nat
  idx_VEL :: nat
  idx_ALT :: nat
  llc_model_str :: "'ap \<Rightarrow> string"
  llc_get_num_integrators :: "'ap \<Rightarrow> nat"
  controlled_f16 :: "real \<Rightarrow> vec \<Rightarrow> vec \<Rightarrow> 'ap \<Rightarrow> string \<Rightarrow> bool
                       \<Rightarrow> vec \<times> vec \<times> real \<times> real \<times> real"
  get_checked_u_ref :: "'ap \<Rightarrow> real \<Rightarrow> vec \<Rightarrow> error + vec"
  advance_discrete_mode :: "'ap \<Rightarrow> real \<Rightarrow> vec \<Rightarrow> bool \<times> 'ap"
  ap_mode :: "'ap \<Rightarrow> 'm"
  is_finished :: "'ap \<Rightarrow> real \<Rightarrow> vec \<Rightarrow> bool"

subsection \<open>The derivative function (make\_der\_func)\<close>

text \<open>The body of the \<^verbatim>\<open>for i in range(num_aircraft)\<close> loop of \<^verbatim>\<open>der_func\<close>, over the
  remaining indices; the result is the list \<^verbatim>\<open>xds\<close>.\<close>

fun der_loop :: "('ap, 'm) collaborators \<Rightarrow> 'ap \<Rightarrow> string \<Rightarrow> bool \<Rightarrow> real \<Rightarrow> vec \<Rightarrow> vec
                  \<Rightarrow> nat \<Rightarrow> nat list \<Rightarrow> error + vec list" where
  "der_loop C a model_str v2 tm full_state u_refs num_vars [] = Inr []"
| "der_loop C a model_str v2 tm full_state u_refs num_vars (i # rest) =
     (let state = slice full_state (num_vars * i) (num_vars * (i + 1)) in
      if \<not> idx_ALPHA C < length state then Inl IndexError
      else let alpha = state ! idx_ALPHA C in
      if \<not> (-2 < alpha \<and> alpha < 2) then Inl (SimModelError Alpha alpha)
      else if \<not> idx_VEL C < length state then Inl IndexError
      else let vel = state ! idx_VEL C in
      if \<not> (200 \<le> vel \<and> vel \<le> 3000) then Inl (SimModelError Velocity vel)
      else if \<not> idx_ALT C < length state then Inl IndexError
      else let alt = state ! idx_ALT C in
      if \<not> (-10000 < alt \<and> alt < 100000) then Inl (SimModelError Altitude alt)
      else let u_ref = slice u_refs (4 * i) (4 * (i + 1));
               xd = fst (controlled_f16 C tm state u_ref a model_str v2)
           in case der_loop C a model_str v2 tm full_state u_refs num_vars rest of
                Inl e \<Rightarrow> Inl e
              | Inr xds \<Rightarrow> Inr (xd # xds))"

text \<open>\<^verbatim>\<open>der_func(t, full_state)\<close> of the closure made by \<^verbatim>\<open>make_der_func(ap, model_str,
  v2_integrators)\<close>. The closure holds the autopilot object, so the autopilot state is the
  one at the time of the call. \<^verbatim>\<open>np.hstack\<close> of an empty list raises \<^verbatim>\<open>ValueError\<close>.\<close>

definition der_func :: "('ap, 'm) collaborators \<Rightarrow> 'ap \<Rightarrow> string \<Rightarrow> bool \<Rightarrow> real \<Rightarrow> vec
                         \<Rightarrow> error + vec" where
  "der_func C a model_str v2 tm full_state =
     (case get_checked_u_ref C a tm full_state of
        Inl e \<Rightarrow> Inl e
      | Inr u_refs \<Rightarrow>
          (let num_aircraft = length u_refs div 4;
               num_vars = n_state_names C + llc_get_num_integrators C a
           in if num_vars = 0 then Inl ZeroDivisionError
              else if length full_state div num_vars \<noteq> num_aircraft then Inl AssertionError
              else (case der_loop C a model_str v2 tm full_state u_refs num_vars
                           [0 ..< num_aircraft] of
                      Inl e \<Rightarrow> Inl e
                    | Inr xds \<Rightarrow> if xds = [] then Inl ValueError else Inr (concat xds))))"

subsection \<open>The extended states (get\_extended\_states)\<close>

definition get_extended_states :: "('ap, 'm) collaborators \<Rightarrow> 'ap \<Rightarrow> real \<Rightarrow> vec \<Rightarrow> string
     \<Rightarrow> bool \<Rightarrow> error + (vec per_aircraft \<times> vec per_aircraft \<times> real per_aircraft
                         \<times> real per_aircraft \<times> real per_aircraft)" where
  "get_extended_states C a tm full_state model_str v2 =
     (let num_vars = n_state_names C + llc_get_num_integrators C a in
      if num_vars = 0 then Inl ZeroDivisionError
      else let num_aircraft = length full_state div num_vars in
        (case get_checked_u_ref C a tm full_state of
           Inl e \<Rightarrow> Inl e
         | Inr u_refs \<Rightarrow>
             (let outs = map (\<lambda>i. controlled_f16 C tm
                                   (slice full_state (num_vars * i) (num_vars * (i + 1)))
                                   (slice u_refs (4 * i) (4 * (i + 1))) a model_str v2)
                             [0 ..< num_aircraft];
                  xd_tup = map (\<lambda>(xd, u, Nz, ps, Ny_r). xd) outs;
                  u_tup = map (\<lambda>(xd, u, Nz, ps, Ny_r). u) outs;
                  Nz_tup = map (\<lambda>(xd, u, Nz, ps, Ny_r). Nz) outs;
                  ps_tup = map (\<lambda>(xd, u, Nz, ps, Ny_r). ps) outs;
                  Ny_r_tup = map (\<lambda>(xd, u, Nz, ps, Ny_r). Ny_r) outs
              in if num_aircraft = 1
                 then Inr (Single (xd_tup ! 0), Single (u_tup ! 0), Single (Nz_tup ! 0),
                           Single (ps_tup ! 0), Single (Ny_r_tup ! 0))
                 else Inr (Tuple xd_tup, Tuple u_tup, Tuple Nz_tup, Tuple ps_tup,
                           Tuple Ny_r_tup))))"

subsection \<open>The integrator\<close>

text \<open>
  The integrator classes (\<^verbatim>\<open>scipy.integrate.RK45\<close>, \<^verbatim>\<open>aerobench.util.Euler\<close>) are imported by
  the file. The engine reads and writes the attribute \<^verbatim>\<open>status\<close>, reads \<^verbatim>\<open>t\<close> and \<^verbatim>\<open>x\<close>,
  and calls the constructor, \<^verbatim>\<open>step()\<close> and \<^verbatim>\<open>dense_output()\<close>. An instance is a record of
  the status, the time, the state vector it holds and the class's own data \<open>'i\<close>; a class
  is a record of four operations. The constructor takes the derivative function, the
  initial time and state and the keyword arguments (\<open>None\<close> for \<^verbatim>\<open>{}\<close>, \<open>Some h\<close> for
  \<^verbatim>\<open>{'step': h}\<close>); the bound is always \<^verbatim>\<open>np.inf\<close>. \<^verbatim>\<open>step()\<close> is given the derivative
  function as it is at the call. The constructor and \<^verbatim>\<open>step()\<close> are calls into the class
  and may raise, for instance the exception of the derivative function they evaluate.
  \<open>ic_x\<close> is the read of the attribute \<^verbatim>\<open>x\<close>: it raises \<^verbatim>\<open>AttributeError\<close> for an instance
  that has no attribute of that name (an instance of \<^verbatim>\<open>RK45\<close> keeps its state in \<^verbatim>\<open>y\<close>).
\<close>

type_synonym derivative = "real \<Rightarrow> vec \<Rightarrow> error + vec"

record 'i integrator_inst =
  int_status :: string
  int_t :: real
  int_y :: vec
  int_data :: 'i

record 'i integrator_cls =
  ic_construct :: "derivative \<Rightarrow> real \<Rightarrow> vec \<Rightarrow> real option \<Rightarrow> error + 'i integrator_inst"
  ic_step :: "derivative \<Rightarrow> 'i integrator_inst \<Rightarrow> error + 'i integrator_inst"
  ic_x :: "'i integrator_inst \<Rightarrow> error + vec"
  ic_dense_output :: "'i integrator_inst \<Rightarrow> real \<Rightarrow> vec"

subsection \<open>The engine state (class F16SimState)\<close>

record ('ap, 'm, 'i) F16SimState =
  model_str :: string
  v2_integrators :: bool
  step :: real
  ap :: 'ap
  print_errors :: bool
  times :: "real list"
  states :: "vec list"
  modes :: "'m list"
  extended_states :: bool
  xd_list :: "vec per_aircraft list"
  u_list :: "vec per_aircraft list"
  Nz_list :: "real per_aircraft list"
  ps_list :: "real per_aircraft list"
  Ny_r_list :: "real per_aircraft list"
  integrator_kwargs :: "real option"
  integrator_class :: "'i integrator_cls"
  integrator :: "'i integrator_inst"
  cur_sim_time :: real

subsection \<open>Construction (F16SimState.\_\_init\_\_)\<close>

text \<open>\<open>rk45\<close> and \<open>euler\<close> are the two classes the constructor chooses from. The wall-clock
  field \<^verbatim>\<open>total_sim_time\<close> is left out. When \<^verbatim>\<open>extended_states\<close> is false the five extended
  lists do not exist in the source; here they stay empty.\<close>

definition init :: "('ap, 'm) collaborators \<Rightarrow> 'i integrator_cls \<Rightarrow> 'i integrator_cls
     \<Rightarrow> vec \<Rightarrow> 'ap \<Rightarrow> real \<Rightarrow> bool \<Rightarrow> string \<Rightarrow> bool \<Rightarrow> bool
     \<Rightarrow> error + ('ap, 'm, 'i) F16SimState" where
  "init C rk45 euler initial_state a0 stp ext integrator_str v2 prt =
     (let mstr = llc_model_str C a0;
          num_vars = n_state_names C + llc_get_num_integrators C a0;
          x0 = (if length initial_state < num_vars
                then initial_state @ replicate (num_vars - length initial_state) 0
                else initial_state)
      in if num_vars = 0 then Inl ZeroDivisionError
         else if length x0 mod num_vars \<noteq> 0 then Inl AssertionError
         else
           (let a1 = snd (advance_discrete_mode C a0 0 x0) in
            case (if ext then get_extended_states C a1 0 x0 mstr v2
                  else Inr (Single [], Single [], Single 0, Single 0, Single 0)) of
              Inl e \<Rightarrow> Inl e
            | Inr (xd, u, Nz, ps, Ny_r) \<Rightarrow>
                if integrator_str \<noteq> ''rk45'' \<and> integrator_str \<noteq> ''euler''
                then Inl AssertionError
                else
                  (let cls = (if integrator_str = ''rk45'' then rk45 else euler);
                       kwargs = (if integrator_str = ''rk45'' then None else Some stp)
                   in case ic_construct cls (der_func C a1 mstr v2) 0 x0 kwargs of
                        Inl e \<Rightarrow> Inl e
                      | Inr I0 \<Rightarrow>
                      Inr \<lparr> model_str = mstr, v2_integrators = v2, step = stp, ap = a1,
                            print_errors = prt, times = [0], states = [x0],
                            modes = [ap_mode C a1], extended_states = ext,
                            xd_list = (if ext then [xd] else []),
                            u_list = (if ext then [u] else []),
                            Nz_list = (if ext then [Nz] else []),
                            ps_list = (if ext then [ps] else []),
                            Ny_r_list = (if ext then [Ny_r] else []),
                            integrator_kwargs = kwargs, integrator_class = cls,
                            integrator = I0, cur_sim_time = 0 \<rparr>)))"

subsection \<open>The stepping loop (F16SimState.simulate\_to)\<close>

text \<open>The sample time the outer loop computes first (lines 105 to 109).\<close>

definition next_step_time :: "('ap, 'm, 'i) F16SimState \<Rightarrow> real \<Rightarrow> real \<Rightarrow> real" where
  "next_step_time s tmax tol =
     (if \<bar>last (times s) - tmax\<bar> > tol \<and> last (times s) + step s > tmax then tmax
      else last (times s) + step s)"

text \<open>The inner loop (lines 117 to 121): step the integrator until its time is within \<open>tol\<close>
  of the sample time or past it, or until its status is no longer \<open>running\<close>. Nothing
  catches an exception of \<^verbatim>\<open>step()\<close>: it ends the loop, and the instance is taken to be
  as the last step that returned left it.\<close>

partial_function (option) advance_integrator :: "'i integrator_cls \<Rightarrow> derivative \<Rightarrow> real
     \<Rightarrow> real \<Rightarrow> 'i integrator_inst \<Rightarrow> (error \<times> 'i integrator_inst + 'i integrator_inst) option"
  where
  "advance_integrator cls der nst tol I =
     (if nst \<ge> int_t I + tol
      then (case ic_step cls der I of
              Inl e \<Rightarrow> Some (Inl (e, I))
            | Inr I' \<Rightarrow>
                if int_status I' \<noteq> ''running'' then Some (Inr I')
                else advance_integrator cls der nst tol I')
      else Some (Inr I))"

declare advance_integrator.simps [code]

text \<open>The state recorded for a sample (lines 129 to 133): the attribute \<^verbatim>\<open>x\<close> of the
  integrator, or its dense output at the sample time.\<close>

definition sample_state :: "'i integrator_cls \<Rightarrow> 'i integrator_inst \<Rightarrow> real \<Rightarrow> real
     \<Rightarrow> error + vec" where
  "sample_state cls I nst tol =
     (if \<bar>int_t I - nst\<bar> < tol then ic_x cls I else Inr (ic_dense_output cls I nst))"

text \<open>What one pass through the body of \<^verbatim>\<open>while True\<close> does: raise, leave the loop, or go
  round again, each with the engine state at that point.\<close>

datatype 's flow = Raise error 's | Break 's | Continue 's

text \<open>Lines 139 to 148: the extended states of the new sample, when they are tracked.\<close>

definition append_extended :: "('ap, 'm) collaborators \<Rightarrow> ('ap, 'm, 'i) F16SimState
     \<Rightarrow> error + ('ap, 'm, 'i) F16SimState" where
  "append_extended C s1 =
     (if extended_states s1
      then (case get_extended_states C (ap s1) (last (times s1)) (last (states s1))
                   (model_str s1) (v2_integrators s1) of
              Inl e \<Rightarrow> Inl e
            | Inr (xd, u, Nz, ps, Ny_r) \<Rightarrow>
                Inr (s1\<lparr>xd_list := xd_list s1 @ [xd], u_list := u_list s1 @ [u],
                         Nz_list := Nz_list s1 @ [Nz], ps_list := ps_list s1 @ [ps],
                         Ny_r_list := Ny_r_list s1 @ [Ny_r]\<rparr>))
      else Inr s1)"

text \<open>Lines 126 to 158: record the sample at \<open>nst\<close> from the integrator \<open>I\<close> that the inner
  loop has left running, advance the mode, ask the autopilot whether it has finished and
  make a new integrator after a mode change. The lists are appended to in place, in the
  order of the source: an exception of the read of \<^verbatim>\<open>x\<close> leaves the time appended without
  a state (\<open>s0\<close>); an exception of \<^verbatim>\<open>get_extended_states\<close> leaves the time, the state and
  the mode appended without the extended states (\<open>s1\<close>); an exception of the constructor
  leaves the whole sample appended and the old integrator in place (\<open>s2\<close>).\<close>

definition record_sample :: "('ap, 'm) collaborators \<Rightarrow> ('ap, 'm, 'i) F16SimState
     \<Rightarrow> 'i integrator_inst \<Rightarrow> real \<Rightarrow> real \<Rightarrow> ('ap, 'm, 'i) F16SimState flow" where
  "record_sample C s I nst tol =
     (let s0 = s\<lparr>integrator := I, times := times s @ [nst]\<rparr>
      in case sample_state (integrator_class s) I nst tol of
           Inl e \<Rightarrow> Raise e s0
         | Inr st \<Rightarrow>
            (let adv = advance_discrete_mode C (ap s) nst st;
                 mode_changed = fst adv;
                 a' = snd adv;
                 s1 = s0\<lparr>states := states s @ [st], ap := a',
                         modes := modes s @ [ap_mode C a']\<rparr>
             in case append_extended C s1 of
                  Inl e \<Rightarrow> Raise e s1
                | Inr s2 \<Rightarrow>
                    if is_finished C a' nst st
                    then Break (s2\<lparr>integrator := I\<lparr>int_status := ''autopilot finished''\<rparr>\<rparr>)
                    else if mode_changed
                    then (case ic_construct (integrator_class s)
                                 (der_func C a' (model_str s) (v2_integrators s)) nst st
                                 (integrator_kwargs s) of
                            Inl e \<Rightarrow> Raise e s2
                          | Inr J \<Rightarrow> Continue (s2\<lparr>integrator := J\<rparr>))
                    else Continue s2))"

definition iteration :: "('ap, 'm) collaborators \<Rightarrow> real \<Rightarrow> real \<Rightarrow> ('ap, 'm, 'i) F16SimState
     \<Rightarrow> ('ap, 'm, 'i) F16SimState flow option" where
  "iteration C tmax tol s =
     (if times s = [] then Some (Raise IndexError s)
      else
        (let nst = next_step_time s tmax tol in
         if nst \<ge> tmax + tol then Some (Break s)
         else
           (case advance_integrator (integrator_class s)
                    (der_func C (ap s) (model_str s) (v2_integrators s)) nst tol (integrator s) of
              None \<Rightarrow> None
            | Some (Inl (e, I)) \<Rightarrow> Some (Raise e (s\<lparr>integrator := I\<rparr>))
            | Some (Inr I) \<Rightarrow>
                if int_status I \<noteq> ''running'' then Some (Break (s\<lparr>integrator := I\<rparr>))
                else Some (record_sample C s I nst tol))))"

text \<open>The result of a method of the engine: the engine state it returns with (\<open>Inr\<close>), or
  the exception it raises and the engine state it leaves behind (\<open>Inl\<close>).\<close>

type_synonym ('ap, 'm, 'i) outcome =
  "error \<times> ('ap, 'm, 'i) F16SimState + ('ap, 'm, 'i) F16SimState"

partial_function (option) main_loop :: "('ap, 'm) collaborators \<Rightarrow> real \<Rightarrow> real
     \<Rightarrow> ('ap, 'm, 'i) F16SimState \<Rightarrow> ('ap, 'm, 'i) outcome option" where
  "main_loop C tmax tol s =
     Option.bind (iteration C tmax tol s)
       (\<lambda>r. case r of
              Raise e s' \<Rightarrow> Some (Inl (e, s'))
            | Break s' \<Rightarrow> Some (Inr s')
            | Continue s' \<Rightarrow> main_loop C tmax tol s')"

declare main_loop.simps [code]

text \<open>\<^verbatim>\<open>simulate_to(tmax, tol)\<close>; the warning printed for a failed integrator and the timing
  are left out. The second assertion comes after the assignment to \<^verbatim>\<open>cur_sim_time\<close>.\<close>

definition simulate_to :: "('ap, 'm) collaborators \<Rightarrow> real \<Rightarrow> real \<Rightarrow> ('ap, 'm, 'i) F16SimState
     \<Rightarrow> ('ap, 'm, 'i) outcome option" where
  "simulate_to C tmax tol s =
     (if \<not> tmax \<ge> cur_sim_time s then Some (Inl (AssertionError, s))
      else if int_status (integrator s) \<noteq> ''running''
      then Some (Inl (AssertionError, s\<lparr>cur_sim_time := tmax\<rparr>))
      else main_loop C tmax tol (s\<lparr>cur_sim_time := tmax\<rparr>))"

text \<open>The default of the parameter \<^verbatim>\<open>tol\<close>.\<close>

definition default_tol :: real where
  "default_tol = 1 / 10000000"

subsection \<open>The single-shot entry point (run\_f16\_sim)\<close>

text \<open>The dictionary that \<^verbatim>\<open>run_f16_sim\<close> returns, without the wall-clock \<^verbatim>\<open>runtime\<close>; the
  extended lists are empty when they are not tracked. The engine object is local to the
  function: an exception leaves nothing of it to the caller.\<close>

record ('m) sim_result =
  res_status :: string
  res_times :: "real list"
  res_states :: "vec list"
  res_modes :: "'m list"
  res_xd_list :: "vec per_aircraft list"
  res_ps_list :: "real per_aircraft list"
  res_Nz_list :: "real per_aircraft list"
  res_Ny_r_list :: "real per_aircraft list"
  res_u_list :: "vec per_aircraft list"

definition run_f16_sim :: "('ap, 'm) collaborators \<Rightarrow> 'i integrator_cls \<Rightarrow> 'i integrator_cls
     \<Rightarrow> vec \<Rightarrow> real \<Rightarrow> 'ap \<Rightarrow> real \<Rightarrow> bool \<Rightarrow> string \<Rightarrow> bool \<Rightarrow> bool
     \<Rightarrow> (error + 'm sim_result) option" where
  "run_f16_sim C rk45 euler initial_state tmax a0 stp ext integrator_str v2 prt =
     (case init C rk45 euler initial_state a0 stp ext integrator_str v2 prt of
        Inl e \<Rightarrow> Some (Inl e)
      | Inr fss0 \<Rightarrow>
          Option.bind (simulate_to C tmax default_tol fss0)
            (\<lambda>r. case r of
                   Inl (e, fss) \<Rightarrow> Some (Inl e)
                 | Inr fss \<Rightarrow>
                     if \<not> \<bar>last (times fss) - tmax\<bar> < 1 / 10000000 then Some (Inl AssertionError)
                     else Some (Inr \<lparr> res_status = int_status (integrator fss),
                                      res_times = times fss, res_states = states fss,
                                      res_modes = modes fss, res_xd_list = xd_list fss,
                                      res_ps_list = ps_list fss, res_Nz_list = Nz_list fss,
                                      res_Ny_r_list = Ny_r_list fss,
                                      res_u_list = u_list fss \<rparr>)))"

subsection \<open>Runs of the loop\<close>

text \<open>\<open>continues\<close> relates the engine state at the head of the loop to the state one pass
  later; \<open>last_pass\<close> says how a run that returns has ended; \<open>passes n\<close> is the state
  after \<open>n\<close> passes that go round again.\<close>

definition continues :: "('ap, 'm) collaborators \<Rightarrow> real \<Rightarrow> real \<Rightarrow> ('ap, 'm, 'i) F16SimState
     \<Rightarrow> ('ap, 'm, 'i) F16SimState \<Rightarrow> bool" where
  "continues C tmax tol s s' \<longleftrightarrow> iteration C tmax tol s = Some (Continue s')"

definition last_pass :: "('ap, 'm) collaborators \<Rightarrow> real \<Rightarrow> real \<Rightarrow> ('ap, 'm, 'i) F16SimState
     \<Rightarrow> ('ap, 'm, 'i) outcome \<Rightarrow> bool" where
  "last_pass C tmax tol s r \<longleftrightarrow>
     (\<exists>sk. (continues C tmax tol)\<^sup>*\<^sup>* s sk \<and>
        ((\<exists>e s'. iteration C tmax tol sk = Some (Raise e s') \<and> r = Inl (e, s')) \<or>
         (\<exists>s'. iteration C tmax tol sk = Some (Break s') \<and> r = Inr s')))"

fun passes :: "nat \<Rightarrow> ('ap, 'm) collaborators \<Rightarrow> real \<Rightarrow> real \<Rightarrow> ('ap, 'm, 'i) F16SimState
     \<Rightarrow> ('ap, 'm, 'i) F16SimState option" where
  "passes 0 C tmax tol s = Some s"
| "passes (Suc n) C tmax tol s =
     (case iteration C tmax tol s of
        Some (Continue s') \<Rightarrow> passes n C tmax tol s'
      | _ \<Rightarrow> None)"

text \<open>The engine state after lines 127 to 136 of a pass that records the state \<open>st\<close>: the
  sample and the mode appended, the autopilot advanced.\<close>

definition appended :: "('ap, 'm) collaborators \<Rightarrow> ('ap, 'm, 'i) F16SimState
     \<Rightarrow> 'i integrator_inst \<Rightarrow> real \<Rightarrow> vec \<Rightarrow> ('ap, 'm, 'i) F16SimState" where
  "appended C s I nst st =
     s\<lparr>integrator := I, times := times s @ [nst], states := states s @ [st],
       ap := snd (advance_discrete_mode C (ap s) nst st),
       modes := modes s @ [ap_mode C (snd (advance_discrete_mode C (ap s) nst st))]\<rparr>"

text \<open>One step of the inner loop that leaves the integrator running.\<close>

definition running_step :: "'i integrator_cls \<Rightarrow> derivative \<Rightarrow> real \<Rightarrow> real
     \<Rightarrow> 'i integrator_inst \<Rightarrow> 'i integrator_inst \<Rightarrow> bool" where
  "running_step cls der nst tol I I' \<longleftrightarrow>
     nst \<ge> int_t I + tol \<and> ic_step cls der I = Inr I' \<and> int_status I' = ''running''"

text \<open>The fields a pass never writes.\<close>

definition same_settings :: "('ap, 'm, 'i) F16SimState \<Rightarrow> ('ap, 'm, 'i) F16SimState \<Rightarrow> bool" where
  "same_settings s s' \<longleftrightarrow>
     cur_sim_time s' = cur_sim_time s \<and> step s' = step s
     \<and> extended_states s' = extended_states s
     \<and> integrator_class s' = integrator_class s
     \<and> integrator_kwargs s' = integrator_kwargs s
     \<and> model_str s' = model_str s \<and> v2_integrators s' = v2_integrators s
     \<and> print_errors s' = print_errors s"

text \<open>\<open>s'\<close> has the trajectory of \<open>s\<close>, or that trajectory and one more sample at time \<open>tn\<close>.\<close>

definition no_sample :: "('ap, 'm, 'i) F16SimState \<Rightarrow> ('ap, 'm, 'i) F16SimState \<Rightarrow> bool" where
  "no_sample s s' \<longleftrightarrow>
     times s' = times s \<and> states s' = states s \<and> modes s' = modes s
     \<and> xd_list s' = xd_list s \<and> u_list s' = u_list s \<and> Nz_list s' = Nz_list s
     \<and> ps_list s' = ps_list s \<and> Ny_r_list s' = Ny_r_list s \<and> ap s' = ap s"

definition sample_added :: "('ap, 'm, 'i) F16SimState \<Rightarrow> real \<Rightarrow> ('ap, 'm, 'i) F16SimState
     \<Rightarrow> bool" where
  "sample_added s tn s' \<longleftrightarrow>
     times s' = times s @ [tn]
     \<and> (\<exists>v. states s' = states s @ [v]) \<and> (\<exists>v. modes s' = modes s @ [v])
     \<and> (if extended_states s
        then (\<exists>v. xd_list s' = xd_list s @ [v]) \<and> (\<exists>v. u_list s' = u_list s @ [v])
           \<and> (\<exists>v. Nz_list s' = Nz_list s @ [v]) \<and> (\<exists>v. ps_list s' = ps_list s @ [v])
           \<and> (\<exists>v. Ny_r_list s' = Ny_r_list s @ [v])
        else xd_list s' = xd_list s \<and> u_list s' = u_list s \<and> Nz_list s' = Nz_list s
           \<and> ps_list s' = ps_list s \<and> Ny_r_list s' = Ny_r_list s)"

text \<open>Every recorded sample of \<open>s\<close> is still there in \<open>s'\<close>, in its place.\<close>

definition samples_preserved :: "('ap, 'm, 'i) F16SimState \<Rightarrow> ('ap, 'm, 'i) F16SimState
     \<Rightarrow> bool" where
  "samples_preserved s s' \<longleftrightarrow>
     prefix (times s) (times s') \<and> prefix (states s) (states s') \<and> prefix (modes s) (modes s')
     \<and> prefix (xd_list s) (xd_list s') \<and> prefix (u_list s) (u_list s')
     \<and> prefix (Nz_list s) (Nz_list s') \<and> prefix (ps_list s) (ps_list s')
     \<and> prefix (Ny_r_list s) (Ny_r_list s')"

subsection \<open>The trajectory invariant\<close>

definition trajectory_ok :: "('ap, 'm, 'i) F16SimState \<Rightarrow> bool" where
  "trajectory_ok s \<longleftrightarrow>
     length (states s) = length (times s) \<and> length (modes s) = length (times s)
     \<and> (extended_states s \<longrightarrow>
          length (xd_list s) = length (times s) \<and> length (u_list s) = length (times s)
          \<and> length (Nz_list s) = length (times s) \<and> length (ps_list s) = length (times s)
          \<and> length (Ny_r_list s) = length (times s))
     \<and> times s \<noteq> [] \<and> hd (times s) = 0 \<and> sorted_wrt (<) (times s)"

definition engine_inv :: "real \<Rightarrow> ('ap, 'm, 'i) F16SimState \<Rightarrow> bool" where
  "engine_inv tol s \<longleftrightarrow>
     trajectory_ok s \<and> 0 < step s \<and> last (times s) \<le> cur_sim_time s + tol"

text \<open>The engine states a caller can get: a constructed engine with a positive output
  step, and what a call of \<^verbatim>\<open>simulate_to\<close> that returns leaves, all calls with the
  tolerance \<open>tol\<close>.\<close>

inductive reachable :: "('ap, 'm) collaborators \<Rightarrow> real \<Rightarrow> ('ap, 'm, 'i) F16SimState \<Rightarrow> bool"
  for C :: "('ap, 'm) collaborators" and tol :: real where
  constructed:
    "init C rk45 euler initial_state a0 stp ext integrator_str v2 prt = Inr s \<Longrightarrow> 0 < stp
     \<Longrightarrow> reachable C tol s"
| simulated:
    "reachable C tol s \<Longrightarrow> simulate_to C tmax tol s = Some (Inr s') \<Longrightarrow> reachable C tol s'"

text \<open>A class whose constructor, when it returns, gives an instance with status
  \<open>running\<close>.\<close>

definition constructs_running :: "'i integrator_cls \<Rightarrow> bool" where
  "constructs_running cls \<longleftrightarrow>
     (\<forall>der t0 x0 kwargs I. ic_construct cls der t0 x0 kwargs = Inr I
        \<longrightarrow> int_status I = ''running'')"

subsection \<open>Two calls in a row\<close>

text \<open>The second call is made when the first returns.\<close>

definition two_calls :: "('ap, 'm) collaborators \<Rightarrow> real \<Rightarrow> real \<Rightarrow> real
     \<Rightarrow> ('ap, 'm, 'i) F16SimState \<Rightarrow> ('ap, 'm, 'i) outcome option" where
  "two_calls C t1 t2 tol s =
     Option.bind (simulate_to C t1 tol s)
       (\<lambda>r. case r of Inl p \<Rightarrow> Some (Inl p) | Inr s1 \<Rightarrow> simulate_to C t2 tol s1)"

text \<open>What a call with target \<open>t2\<close> makes of the result of the loop of an earlier call.\<close>

definition resume_to :: "('ap, 'm) collaborators \<Rightarrow> real \<Rightarrow> real
     \<Rightarrow> ('ap, 'm, 'i) outcome option \<Rightarrow> ('ap, 'm, 'i) outcome option" where
  "resume_to C t2 tol r =
     (case r of
        None \<Rightarrow> None
      | Some (Inl (e, s1)) \<Rightarrow> Some (Inl (e, s1\<lparr>cur_sim_time := t2\<rparr>))
      | Some (Inr s1) \<Rightarrow>
          if int_status (integrator s1) = ''running''
          then main_loop C t2 tol (s1\<lparr>cur_sim_time := t2\<rparr>)
          else Some (Inr (s1\<lparr>cur_sim_time := t2\<rparr>)))"

definition recorded_times :: "('ap, 'm, 'i) outcome option \<Rightarrow> real list" where
  "recorded_times r = (case r of Some (Inr s) \<Rightarrow> times s | _ \<Rightarrow> [])"

subsection \<open>Calls in a row on one engine\<close>

text \<open>A caller that catches the exception of a call still holds the engine object and can
  call again. \<open>calls\<close> makes the calls of a list, each with its target time and its
  tolerance, each on the engine state that the call before has left, whether it returned
  or raised; the result is that of the last call.\<close>

fun calls :: "('ap, 'm) collaborators \<Rightarrow> (real \<times> real) list \<Rightarrow> ('ap, 'm, 'i) F16SimState
     \<Rightarrow> ('ap, 'm, 'i) outcome option" where
  "calls C [] s = Some (Inr s)"
| "calls C ((tmax, tol) # cs) s =
     (case simulate_to C tmax tol s of
        None \<Rightarrow> None
      | Some (Inl (e, s')) \<Rightarrow> if cs = [] then Some (Inl (e, s')) else calls C cs s'
      | Some (Inr s') \<Rightarrow> calls C cs s')"

text \<open>The exception of a call that raises, and the lengths of the times, states and modes
  and of the five extended lists of the engine that a call returns with.\<close>

definition raised :: "('ap, 'm, 'i) outcome option \<Rightarrow> error option" where
  "raised r = (case r of Some (Inl (e, s)) \<Rightarrow> Some e | _ \<Rightarrow> None)"

definition recorded_lengths :: "('ap, 'm, 'i) outcome option \<Rightarrow> nat list" where
  "recorded_lengths r =
     (case r of
        Some (Inr s) \<Rightarrow> [length (times s), length (states s), length (modes s),
                         length (xd_list s), length (u_list s), length (Nz_list s),
                         length (ps_list s), length (Ny_r_list s)]
      | _ \<Rightarrow> [])"

definition up_to :: "real \<Rightarrow> real list \<Rightarrow> real list" where
  "up_to tm ts = takeWhile (\<lambda>u. u \<le> tm) ts"

subsection \<open>The envelope\<close>

definition quantity_index :: "('ap, 'm) collaborators \<Rightarrow> quantity \<Rightarrow> nat" where
  "quantity_index C q = (case q of Alpha \<Rightarrow> idx_ALPHA C | Velocity \<Rightarrow> idx_VEL C
                                 | Altitude \<Rightarrow> idx_ALT C)"

definition within_bounds :: "quantity \<Rightarrow> real \<Rightarrow> bool" where
  "within_bounds q v = (case q of Alpha \<Rightarrow> -2 < v \<and> v < 2
                                | Velocity \<Rightarrow> 200 \<le> v \<and> v \<le> 3000
                                | Altitude \<Rightarrow> -10000 < v \<and> v < 100000)"

definition in_envelope :: "('ap, 'm) collaborators \<Rightarrow> vec \<Rightarrow> bool" where
  "in_envelope C state \<longleftrightarrow>
     within_bounds Alpha (state ! idx_ALPHA C) \<and> within_bounds Velocity (state ! idx_VEL C)
     \<and> within_bounds Altitude (state ! idx_ALT C)"

text \<open>The error for a sub-state outside the envelope: the first bound, in the order
  angle of attack, airspeed, altitude, that it violates.\<close>

definition first_violation :: "('ap, 'm) collaborators \<Rightarrow> vec \<Rightarrow> error" where
  "first_violation C state =
     (if \<not> within_bounds Alpha (state ! idx_ALPHA C)
      then SimModelError Alpha (state ! idx_ALPHA C)
      else if \<not> within_bounds Velocity (state ! idx_VEL C)
      then SimModelError Velocity (state ! idx_VEL C)
      else SimModelError Altitude (state ! idx_ALT C))"

text \<open>The sub-state of aircraft \<open>i\<close> and its derivative.\<close>

definition sub_state :: "vec \<Rightarrow> nat \<Rightarrow> nat \<Rightarrow> vec" where
  "sub_state full_state num_vars i = slice full_state (num_vars * i) (num_vars * (i + 1))"

definition aircraft_xd :: "('ap, 'm) collaborators \<Rightarrow> 'ap \<Rightarrow> string \<Rightarrow> bool \<Rightarrow> real \<Rightarrow> vec
     \<Rightarrow> vec \<Rightarrow> nat \<Rightarrow> nat \<Rightarrow> vec" where
  "aircraft_xd C a mstr v2 tm full_state u_refs num_vars i =
     fst (controlled_f16 C tm (sub_state full_state num_vars i)
            (slice u_refs (4 * i) (4 * (i + 1))) a mstr v2)"

subsection \<open>The order of section 4.2 of the specification\<close>

text \<open>The derivative evaluator as the specification words it, for comparison with
  \<open>der_func\<close>: for each aircraft sub-state, in order, validate the bounds, then obtain the
  control reference from the autopilot, then invoke the dynamics.\<close>

fun der_loop_validate_first :: "('ap, 'm) collaborators \<Rightarrow> 'ap \<Rightarrow> string \<Rightarrow> bool \<Rightarrow> real
     \<Rightarrow> vec \<Rightarrow> nat \<Rightarrow> nat list \<Rightarrow> error + vec list" where
  "der_loop_validate_first C a mstr v2 tm full_state num_vars [] = Inr []"
| "der_loop_validate_first C a mstr v2 tm full_state num_vars (i # rest) =
     (let state = slice full_state (num_vars * i) (num_vars * (i + 1)) in
      if \<not> in_envelope C state then Inl (first_violation C state)
      else (case get_checked_u_ref C a tm full_state of
              Inl e \<Rightarrow> Inl e
            | Inr u_refs \<Rightarrow>
                (let xd = fst (controlled_f16 C tm state (slice u_refs (4 * i) (4 * (i + 1)))
                                 a mstr v2)
                 in case der_loop_validate_first C a mstr v2 tm full_state num_vars rest of
                      Inl e \<Rightarrow> Inl e
                    | Inr xds \<Rightarrow> Inr (xd # xds))))"

definition der_func_validate_first :: "('ap, 'm) collaborators \<Rightarrow> 'ap \<Rightarrow> string \<Rightarrow> bool
     \<Rightarrow> real \<Rightarrow> vec \<Rightarrow> error + vec" where
  "der_func_validate_first C a mstr v2 tm full_state =
     (let num_vars = n_state_names C + llc_get_num_integrators C a in
      if num_vars = 0 then Inl ZeroDivisionError
      else (case der_loop_validate_first C a mstr v2 tm full_state num_vars
                   [0 ..< length full_state div num_vars] of
              Inl e \<Rightarrow> Inl e
            | Inr xds \<Rightarrow> if xds = [] then Inl ValueError else Inr (concat xds)))"

subsection \<open>An integrator after section 4.1 of the specification\<close>

text \<open>Modelled from the spec: the integrator classes (\<^verbatim>\<open>scipy.integrate.RK45\<close> and
  \<^verbatim>\<open>aerobench.util.Euler\<close>) are missing from the sources. Section 4.1: \<^verbatim>\<open>step()\<close> advances
  the internal state by one increment, "updates status to failed if the derivative
  function signals an invalid state or a numerical failure occurs, running otherwise;
  never raises past this boundary". The numerical scheme is a parameter: it gives the
  advanced instance, or \<open>Inl\<close> when the derivative function raised or the scheme failed.\<close>

type_synonym 'i scheme = "derivative \<Rightarrow> 'i integrator_inst \<Rightarrow> error + 'i integrator_inst"

definition step_of_scheme :: "'i scheme \<Rightarrow> derivative \<Rightarrow> 'i integrator_inst
     \<Rightarrow> 'i integrator_inst" where
  "step_of_scheme scheme der I =
     (case scheme der I of
        Inl e \<Rightarrow> I\<lparr>int_status := ''failed''\<rparr>
      | Inr I' \<Rightarrow> I'\<lparr>int_status := ''running''\<rparr>)"

text \<open>Modelled from the spec: the fixed-step strategy of section 4.1 ("step size is
  supplied at construction and used for every step", "may use linear interpolation
  between fixed steps"). The instance keeps the step size and the previous time and
  state.\<close>

type_synonym euler_data = "real \<times> real \<times> vec"

definition euler_construct :: "derivative \<Rightarrow> real \<Rightarrow> vec \<Rightarrow> real option
     \<Rightarrow> euler_data integrator_inst" where
  "euler_construct der t0 x0 kwargs =
     \<lparr> int_status = ''running'', int_t = t0, int_y = x0,
       int_data = (case kwargs of None \<Rightarrow> 0 | Some h \<Rightarrow> h, t0, x0) \<rparr>"

definition euler_scheme :: "euler_data scheme" where
  "euler_scheme der I =
     (case der (int_t I) (int_y I) of
        Inl e \<Rightarrow> Inl e
      | Inr yd \<Rightarrow>
          (let h = fst (int_data I)
           in Inr (I\<lparr>int_t := int_t I + h,
                     int_y := map2 (\<lambda>y d. y + h * d) (int_y I) yd,
                     int_data := (h, int_t I, int_y I)\<rparr>)))"

definition euler_dense_output :: "euler_data integrator_inst \<Rightarrow> real \<Rightarrow> vec" where
  "euler_dense_output I tq =
     (case int_data I of
        (h, tp, xp) \<Rightarrow>
          if int_t I = tp then int_y I
          else map2 (\<lambda>p c. p + (tq - tp) / (int_t I - tp) * (c - p)) xp (int_y I))"

text \<open>Modelled from the spec: the class of the fixed-step strategy. As section 4.1 has it,
  neither its constructor nor its \<^verbatim>\<open>step()\<close> raises, and the "current internal integration
  time and state" of section 3 are what the engine reads as \<^verbatim>\<open>t\<close> and \<^verbatim>\<open>x\<close>.\<close>

definition Euler :: "euler_data integrator_cls" where
  "Euler = \<lparr> ic_construct = (\<lambda>der t0 x0 kwargs. Inr (euler_construct der t0 x0 kwargs)),
             ic_step = (\<lambda>der I. Inr (step_of_scheme euler_scheme der I)),
             ic_x = (\<lambda>I. Inr (int_y I)),
             ic_dense_output = euler_dense_output \<rparr>"

subsection \<open>An integrator with the interface of RK45\<close>

text \<open>What the engine meets in \<^verbatim>\<open>scipy.integrate.RK45\<close>, the class it imports and uses by
  default: instances with the attributes \<^verbatim>\<open>status\<close>, \<^verbatim>\<open>t\<close> and \<^verbatim>\<open>y\<close> and no attribute \<^verbatim>\<open>x\<close>; a
  constructor and a \<^verbatim>\<open>step()\<close> that evaluate the derivative function and do not catch
  what it raises; with the bound \<^verbatim>\<open>np.inf\<close>, a status that stays \<open>running\<close>. The step-size
  control and the Runge-Kutta formula are not modelled: the class below advances by one
  explicit Euler step of the internal size \<open>h\<close> and interpolates linearly between its
  last two points. The instance keeps the previous time and state.\<close>

type_synonym rk45_data = "real \<times> vec"

definition rk45_like_construct :: "derivative \<Rightarrow> real \<Rightarrow> vec \<Rightarrow> real option
     \<Rightarrow> error + rk45_data integrator_inst" where
  "rk45_like_construct der t0 y0 kwargs =
     (case der t0 y0 of
        Inl e \<Rightarrow> Inl e
      | Inr f0 \<Rightarrow> Inr \<lparr> int_status = ''running'', int_t = t0, int_y = y0,
                        int_data = (t0, y0) \<rparr>)"

definition rk45_like_step :: "real \<Rightarrow> derivative \<Rightarrow> rk45_data integrator_inst
     \<Rightarrow> error + rk45_data integrator_inst" where
  "rk45_like_step h der I =
     (case der (int_t I) (int_y I) of
        Inl e \<Rightarrow> Inl e
      | Inr yd \<Rightarrow> Inr (I\<lparr>int_t := int_t I + h,
                         int_y := map2 (\<lambda>y d. y + h * d) (int_y I) yd,
                         int_data := (int_t I, int_y I)\<rparr>))"

definition rk45_like_dense_output :: "rk45_data integrator_inst \<Rightarrow> real \<Rightarrow> vec" where
  "rk45_like_dense_output I tq =
     (case int_data I of
        (tp, yp) \<Rightarrow>
          if int_t I = tp then int_y I
          else map2 (\<lambda>p c. p + (tq - tp) / (int_t I - tp) * (c - p)) yp (int_y I))"

definition RK45_like :: "real \<Rightarrow> rk45_data integrator_cls" where
  "RK45_like h = \<lparr> ic_construct = rk45_like_construct, ic_step = rk45_like_step h,
                   ic_x = (\<lambda>I. Inl AttributeError),
                   ic_dense_output = rk45_like_dense_output \<rparr>"

subsection \<open>Collaborators for the examples\<close>

text \<open>An autopilot whose state and mode are a number, with the state layout of the
  aircraft model (13 base states, airspeed at 0, angle of attack at 1, altitude at 11)
  and 3 integrator states. It changes mode once, at the first sample at or after
  \<open>switch_at\<close>, never finishes, and commands zero references; when \<open>strict\<close> its
  checked accessor rejects the reference. The dynamics give the airspeed the constant
  rate \<open>vdot\<close>.\<close>

definition demo_collab :: "real option \<Rightarrow> real \<Rightarrow> bool \<Rightarrow> (nat, nat) collaborators" where
  "demo_collab switch_at vdot strict =
     \<lparr> n_state_names = 13, idx_ALPHA = 1, idx_VEL = 0, idx_ALT = 11,
       llc_model_str = (\<lambda>a. ''morelli''),
       llc_get_num_integrators = (\<lambda>a. 3),
       controlled_f16 = (\<lambda>tm state u_ref a mstr v2.
          (vdot # replicate 15 0, replicate 7 0, 0, 0, 0)),
       get_checked_u_ref = (\<lambda>a tm full_state.
          if strict then Inl AssertionError
          else Inr (replicate (4 * (length full_state div 16)) 0)),
       advance_discrete_mode = (\<lambda>a tm full_state.
          case switch_at of
            None \<Rightarrow> (False, a)
          | Some ts \<Rightarrow> if a = 0 \<and> ts \<le> tm then (True, 1) else (False, a)),
       ap_mode = (\<lambda>a. a),
       is_finished = (\<lambda>a tm full_state. False) \<rparr>"

text \<open>The same autopilot, never changing mode, with a checked accessor that rejects the
  reference from the time \<open>t_lim\<close> on.\<close>

definition demo_collab_valid_until :: "real \<Rightarrow> (nat, nat) collaborators" where
  "demo_collab_valid_until t_lim =
     (demo_collab None 0 False)
       \<lparr>get_checked_u_ref := (\<lambda>a tm full_state.
          if t_lim \<le> tm then Inl AssertionError
          else Inr (replicate (4 * (length full_state div 16)) 0))\<rparr>"

text \<open>A nominal initial state: airspeed 500, angle of attack 0, altitude 1000, power 9.\<close>

definition nominal :: vec where
  "nominal = [500, 0, 0, 0, 0, 0, 0, 0, 0, 0, 0, 1000, 9]"

text \<open>A constructed engine with the fixed-step integrator and output step \<open>stp\<close>.\<close>

definition demo_engine :: "(nat, nat) collaborators \<Rightarrow> vec \<Rightarrow> real \<Rightarrow> bool
     \<Rightarrow> (nat, nat, euler_data) F16SimState" where
  "demo_engine C initial_state stp ext =
     projr (init C Euler Euler initial_state 0 stp ext ''euler'' False True)"

text \<open>A constructed engine with the default integrator \<open>rk45\<close>, of internal step \<open>h\<close>.\<close>

definition rk45_engine :: "(nat, nat) collaborators \<Rightarrow> vec \<Rightarrow> real \<Rightarrow> real
     \<Rightarrow> (nat, nat, rk45_data) F16SimState" where
  "rk45_engine C initial_state stp h =
     projr (init C (RK45_like h) (RK45_like h) initial_state 0 stp False ''rk45'' False True)"

text \<open>The output step of the nominal run, and its engine states with the fixed-step
  integrator: \<open>k\<close> samples after the initial one have been recorded, on the grid, and the
  integrator is running at the last of them with the state unchanged.\<close>

definition nominal_step :: real where
  "nominal_step = 1 / 30"

definition steady_at :: "nat \<Rightarrow> (nat, nat, euler_data) F16SimState \<Rightarrow> bool" where
  "steady_at k s \<longleftrightarrow>
     times s = map (\<lambda>i. real i * nominal_step) [0 ..< Suc k]
     \<and> ap s = 0 \<and> step s = nominal_step \<and> \<not> extended_states s
     \<and> model_str s = ''morelli'' \<and> \<not> v2_integrators s
     \<and> integrator_class s = Euler
     \<and> int_status (integrator s) = ''running''
     \<and> int_t (integrator s) = real k * nominal_step
     \<and> int_y (integrator s) = nominal @ [0, 0, 0]
     \<and> fst (int_data (integrator s)) = nominal_step"

section \<open>Properties\<close>

subsection \<open>Evaluating the examples\<close>

lemma replicate_numeral_eq: "replicate (numeral k) x = x # replicate (pred_numeral k) x"
  by (simp add: numeral_eq_Suc)

lemmas demo_defs = demo_engine_def init_def demo_collab_def nominal_def Euler_def
  euler_construct_def euler_scheme_def step_of_scheme_def euler_dense_output_def
  get_extended_states_def default_tol_def replicate_numeral_eq

lemmas rk45_defs = rk45_engine_def init_def demo_collab_def nominal_def RK45_like_def
  rk45_like_construct_def rk45_like_step_def rk45_like_dense_output_def
  get_extended_states_def default_tol_def replicate_numeral_eq

lemmas run_defs = iteration_def record_sample_def append_extended_def next_step_time_def
  sample_state_def advance_integrator.simps der_func_def slice_def Let_def

lemmas eval_defs = demo_defs run_defs simulate_to_def main_loop.simps

subsection \<open>Passes of the loop\<close>

lemmas iteration_splits = if_splits option.splits sum.splits prod.splits

lemma main_loop_Continue:
  "iteration C tmax tol s = Some (Continue s') \<Longrightarrow> main_loop C tmax tol s = main_loop C tmax tol s'"
  by (subst main_loop.simps) simp

lemma main_loop_Break:
  "iteration C tmax tol s = Some (Break s') \<Longrightarrow> main_loop C tmax tol s = Some (Inr s')"
  by (subst main_loop.simps) simp

lemma main_loop_Raise:
  "iteration C tmax tol s = Some (Raise e s') \<Longrightarrow> main_loop C tmax tol s = Some (Inl (e, s'))"
  by (subst main_loop.simps) simp

lemma main_loop_None:
  "iteration C tmax tol s = None \<Longrightarrow> main_loop C tmax tol s = None"
  by (subst main_loop.simps) simp

lemma main_loop_continues:
  "(continues C tmax tol)\<^sup>*\<^sup>* s sk \<Longrightarrow> main_loop C tmax tol s = main_loop C tmax tol sk"
  by (induction rule: rtranclp_induct) (simp_all add: continues_def main_loop_Continue)

lemma main_loop_last_pass:
  assumes "main_loop C tmax tol s = Some r"
  shows "last_pass C tmax tol s r"
proof (rule main_loop.raw_induct[OF _ assms])
  fix loop :: "('a, 'b) collaborators \<Rightarrow> real \<Rightarrow> real \<Rightarrow> ('a, 'b, 'c) F16SimState \<Rightarrow> ('a, 'b, 'c) outcome option"
  fix C tmax tol s r
  assume IH: "\<And>C tmax tol s r. loop C tmax tol s = Some r \<Longrightarrow> last_pass C tmax tol s r"
  assume eq: "Option.bind (iteration C tmax tol s)
       (\<lambda>r. case r of Raise e s' \<Rightarrow> Some (Inl (e, s')) | Break s' \<Rightarrow> Some (Inr s') | Continue s' \<Rightarrow> loop C tmax tol s') = Some r"
  from eq obtain f where it: "iteration C tmax tol s = Some f"
    by (cases "iteration C tmax tol s") simp_all
  show "last_pass C tmax tol s r"
  proof (cases f)
    case (Raise e s')
    with it eq show ?thesis unfolding last_pass_def by auto
  next
    case (Break s')
    with it eq show ?thesis unfolding last_pass_def by auto
  next
    case (Continue s')
    with it eq have "loop C tmax tol s' = Some r" by simp
    then have "last_pass C tmax tol s' r" by (rule IH)
    moreover have "continues C tmax tol s s'" using it Continue by (simp add: continues_def)
    ultimately show ?thesis unfolding last_pass_def
      by (blast intro: converse_rtranclp_into_rtranclp)
  qed
qed


lemma append_extended_shape:
  assumes "append_extended C s1 = Inr s2"
  shows "same_settings s1 s2 \<and> times s2 = times s1 \<and> states s2 = states s1 \<and> modes s2 = modes s1
       \<and> ap s2 = ap s1 \<and> integrator s2 = integrator s1
       \<and> (if extended_states s1
          then (\<exists>v. xd_list s2 = xd_list s1 @ [v]) \<and> (\<exists>v. u_list s2 = u_list s1 @ [v])
             \<and> (\<exists>v. Nz_list s2 = Nz_list s1 @ [v]) \<and> (\<exists>v. ps_list s2 = ps_list s1 @ [v])
             \<and> (\<exists>v. Ny_r_list s2 = Ny_r_list s1 @ [v])
          else s2 = s1)"
proof (cases "extended_states s1")
  case False
  with assms show ?thesis by (simp add: append_extended_def same_settings_def)
next
  case True
  with assms obtain xd u Nz ps Ny_r where
    "s2 = s1\<lparr>xd_list := xd_list s1 @ [xd], u_list := u_list s1 @ [u],
              Nz_list := Nz_list s1 @ [Nz], ps_list := ps_list s1 @ [ps],
              Ny_r_list := Ny_r_list s1 @ [Ny_r]\<rparr>"
    by (auto simp: append_extended_def split: sum.splits prod.splits)
  with True show ?thesis by (simp add: same_settings_def)
qed

lemma record_sample_no_x:
  "sample_state (integrator_class s) I nst tol = Inl e
   \<Longrightarrow> record_sample C s I nst tol = Raise e (s\<lparr>integrator := I, times := times s @ [nst]\<rparr>)"
  by (simp add: record_sample_def Let_def)

lemma record_sample_unfold:
  "sample_state (integrator_class s) I nst tol = Inr st \<Longrightarrow>
   record_sample C s I nst tol =
     (case append_extended C (appended C s I nst st) of
        Inl e \<Rightarrow> Raise e (appended C s I nst st)
      | Inr s2 \<Rightarrow>
          if is_finished C (snd (advance_discrete_mode C (ap s) nst st)) nst st
          then Break (s2\<lparr>integrator := I\<lparr>int_status := ''autopilot finished''\<rparr>\<rparr>)
          else if fst (advance_discrete_mode C (ap s) nst st)
          then (case ic_construct (integrator_class s)
                       (der_func C (snd (advance_discrete_mode C (ap s) nst st))
                          (model_str s) (v2_integrators s)) nst st (integrator_kwargs s) of
                  Inl e \<Rightarrow> Raise e s2
                | Inr J \<Rightarrow> Continue (s2\<lparr>integrator := J\<rparr>))
          else Continue s2)"
  by (simp add: record_sample_def appended_def Let_def split: sum.splits)

lemma appended_simps:
  "times (appended C s I nst st) = times s @ [nst]"
  "states (appended C s I nst st) = states s @ [st]"
  "modes (appended C s I nst st) = modes s @ [ap_mode C (ap (appended C s I nst st))]"
  "ap (appended C s I nst st) = snd (advance_discrete_mode C (ap s) nst st)"
  "integrator (appended C s I nst st) = I"
  "xd_list (appended C s I nst st) = xd_list s"
  "u_list (appended C s I nst st) = u_list s"
  "Nz_list (appended C s I nst st) = Nz_list s"
  "ps_list (appended C s I nst st) = ps_list s"
  "Ny_r_list (appended C s I nst st) = Ny_r_list s"
  "extended_states (appended C s I nst st) = extended_states s"
  "same_settings s (appended C s I nst st)"
  by (simp_all add: appended_def same_settings_def)

lemma same_settings_trans: "same_settings s s' \<Longrightarrow> same_settings s' s'' \<Longrightarrow> same_settings s s''"
  by (simp add: same_settings_def)

lemma same_settings_integrator [simp]: "same_settings s (s'\<lparr>integrator := J\<rparr>) = same_settings s s'"
  by (simp add: same_settings_def)

text \<open>A pass that records a sample and does not raise has read the state of the sample
  and appended the extended states.\<close>

lemma record_sample_returns:
  assumes "record_sample C s I nst tol = f" and "f = Continue s' \<or> f = Break s'"
  obtains st s2 J where "sample_state (integrator_class s) I nst tol = Inr st"
    "append_extended C (appended C s I nst st) = Inr s2" "s' = s2\<lparr>integrator := J\<rparr>"
proof (cases "sample_state (integrator_class s) I nst tol")
  case (Inl e)
  with assms show ?thesis by (auto simp: record_sample_no_x)
next
  case (Inr st)
  note un = record_sample_unfold[OF Inr, of C]
  show ?thesis
  proof (cases "append_extended C (appended C s I nst st)")
    case (Inl e)
    with assms un show ?thesis by auto
  next
    case app: (Inr s2)
    have self: "\<And>u :: ('a, 'b, 'c) F16SimState. \<exists>J. u = u\<lparr>integrator := J\<rparr>"
      by (rule_tac x = "integrator u" in exI) simp
    from app assms un self have "\<exists>J. s' = s2\<lparr>integrator := J\<rparr>"
      by (auto split: if_splits sum.splits)
    then obtain J where "s' = s2\<lparr>integrator := J\<rparr>" by blast
    with Inr app show ?thesis by (rule that)
  qed
qed

lemma record_sample_shape:
  assumes "record_sample C s I nst tol = f" and "f = Continue s' \<or> f = Break s'"
  shows "\<exists>st. sample_state (integrator_class s) I nst tol = Inr st
       \<and> same_settings s s' \<and> sample_added s nst s'
       \<and> states s' = states s @ [st]
       \<and> ap s' = snd (advance_discrete_mode C (ap s) nst st)"
proof -
  from assms obtain st s2 J where st: "sample_state (integrator_class s) I nst tol = Inr st"
    and s2: "append_extended C (appended C s I nst st) = Inr s2"
    and s': "s' = s2\<lparr>integrator := J\<rparr>"
    by (rule record_sample_returns)
  note sh = append_extended_shape[OF s2]
  have "same_settings s s'" using sh s' appended_simps(12)[of s C I nst st]
    by (auto intro: same_settings_trans)
  moreover have "sample_added s nst s'"
    using sh s' unfolding sample_added_def
    by (cases "extended_states s") (simp_all add: appended_simps)
  moreover have "states s' = states s @ [st]"
    using sh s' by (simp add: appended_simps)
  moreover have "ap s' = snd (advance_discrete_mode C (ap s) nst st)"
    using sh s' by (simp add: appended_simps)
  ultimately show ?thesis using st by simp
qed

lemma iteration_Some_cases:
  assumes "iteration C tmax tol s = Some f"
  obtains (empty) "times s = []" "f = Raise IndexError s"
  | (covered) "times s \<noteq> []" "next_step_time s tmax tol \<ge> tmax + tol" "f = Break s"
  | (raised) e I where "times s \<noteq> []" "next_step_time s tmax tol < tmax + tol"
      "advance_integrator (integrator_class s) (der_func C (ap s) (model_str s) (v2_integrators s))
         (next_step_time s tmax tol) tol (integrator s) = Some (Inl (e, I))"
      "f = Raise e (s\<lparr>integrator := I\<rparr>)"
  | (stopped) I where "times s \<noteq> []" "next_step_time s tmax tol < tmax + tol"
      "advance_integrator (integrator_class s) (der_func C (ap s) (model_str s) (v2_integrators s))
         (next_step_time s tmax tol) tol (integrator s) = Some (Inr I)"
      "int_status I \<noteq> ''running''" "f = Break (s\<lparr>integrator := I\<rparr>)"
  | (recorded) I where "times s \<noteq> []" "next_step_time s tmax tol < tmax + tol"
      "advance_integrator (integrator_class s) (der_func C (ap s) (model_str s) (v2_integrators s))
         (next_step_time s tmax tol) tol (integrator s) = Some (Inr I)"
      "int_status I = ''running''" "f = record_sample C s I (next_step_time s tmax tol) tol"
proof (cases "times s = []")
  case True
  with assms have "f = Raise IndexError s" by (simp add: iteration_def)
  with True show ?thesis by (rule empty)
next
  case ne: False
  show ?thesis
  proof (cases "next_step_time s tmax tol \<ge> tmax + tol")
    case True
    with assms ne have "f = Break s" by (simp add: iteration_def Let_def)
    with ne True show ?thesis by (rule covered)
  next
    case nb: False
    then have lt: "next_step_time s tmax tol < tmax + tol" by simp
    from assms ne nb obtain r where
      adv: "advance_integrator (integrator_class s) (der_func C (ap s) (model_str s) (v2_integrators s))
         (next_step_time s tmax tol) tol (integrator s) = Some r"
      by (auto simp: iteration_def Let_def split: option.splits)
    show ?thesis
    proof (cases r)
      case (Inl p)
      obtain e I where p: "p = (e, I)" by (cases p)
      with assms ne nb adv Inl have "f = Raise e (s\<lparr>integrator := I\<rparr>)"
        by (simp add: iteration_def Let_def)
      with ne lt adv[unfolded Inl p] show ?thesis by (rule raised)
    next
      case (Inr I)
      show ?thesis
      proof (cases "int_status I = ''running''")
        case True
        with assms ne nb adv Inr have "f = record_sample C s I (next_step_time s tmax tol) tol"
          by (simp add: iteration_def Let_def)
        with ne lt adv[unfolded Inr] True show ?thesis by (rule recorded)
      next
        case False
        with assms ne nb adv Inr have "f = Break (s\<lparr>integrator := I\<rparr>)"
          by (simp add: iteration_def Let_def)
        with ne lt adv[unfolded Inr] False show ?thesis by (rule stopped)
      qed
    qed
  qed
qed

lemma same_settings_refl [simp]: "same_settings s s"
  by (simp add: same_settings_def)

lemma no_sample_integrator [simp]: "no_sample s (s\<lparr>integrator := J\<rparr>)"
  by (simp add: no_sample_def)

lemma no_sample_refl [simp]: "no_sample s s"
  by (simp add: no_sample_def)

lemma iteration_shape:
  assumes "iteration C tmax tol s = Some f" and "f = Continue s' \<or> f = Break s'"
  shows "times s \<noteq> [] \<and> same_settings s s' \<and>
         (no_sample s s' \<or>
          (next_step_time s tmax tol < tmax + tol \<and> sample_added s (next_step_time s tmax tol) s'))"
  using assms(1)
proof (cases rule: iteration_Some_cases)
  case empty
  with assms(2) show ?thesis by simp
next
  case covered
  with assms(2) show ?thesis by auto
next
  case (raised e I)
  with assms(2) show ?thesis by simp
next
  case (stopped I)
  with assms(2) show ?thesis by auto
next
  case (recorded I)
  from record_sample_shape[OF recorded(5)[symmetric] assms(2)] recorded(1,2)
  show ?thesis by auto
qed

lemma sample_added_times: "sample_added s tn s' \<Longrightarrow> times s' = times s @ [tn]"
  by (simp add: sample_added_def)

lemma no_sample_times: "no_sample s s' \<Longrightarrow> times s' = times s"
  by (simp add: no_sample_def)

subsection \<open>The recorded state\<close>

text \<open>A pass that records a sample and returns has appended the sample time of the pass
  and the value of the attribute \<^verbatim>\<open>x\<close> of the integrator as the inner loop left it when the
  integrator's time is within the tolerance of the sample time, and otherwise the dense
  output of that integrator at the sample time.\<close>

lemma recorded_state_when_pass_returns:
  assumes "iteration C tmax tol s = Some f" and "f = Continue s' \<or> f = Break s'"
    and "times s' \<noteq> times s"
  shows "\<exists>I st. advance_integrator (integrator_class s)
               (der_func C (ap s) (model_str s) (v2_integrators s))
               (next_step_time s tmax tol) tol (integrator s) = Some (Inr I)
           \<and> times s' = times s @ [next_step_time s tmax tol]
           \<and> states s' = states s @ [st]
           \<and> (if \<bar>int_t I - next_step_time s tmax tol\<bar> < tol
              then ic_x (integrator_class s) I = Inr st
              else st = ic_dense_output (integrator_class s) I (next_step_time s tmax tol))"
  using assms(1)
proof (cases rule: iteration_Some_cases)
  case empty
  with assms(2) show ?thesis by simp
next
  case covered
  with assms(2,3) show ?thesis by simp
next
  case (raised e I)
  with assms(2) show ?thesis by simp
next
  case (stopped I)
  with assms(2,3) show ?thesis by auto
next
  case (recorded I)
  from record_sample_shape[OF recorded(5)[symmetric] assms(2)] recorded(3)
  show ?thesis by (auto simp: sample_added_times sample_state_def split: if_splits)
qed

text \<open>
  Claim C8. A pass of the loop of \<^verbatim>\<open>simulate_to\<close> that records a sample appends the sample
  time first and then reads the state: when the integrator's time is within the tolerance
  of the sample time, it reads the attribute \<^verbatim>\<open>x\<close> of the integrator (line 130). For an
  integrator that has no attribute \<^verbatim>\<open>x\<close>, as an instance of \<^verbatim>\<open>RK45\<close>, the class the
  engine uses by default, such a pass does not append the integrator's current state: it
  raises the attribute error, and leaves the engine with the sample time appended and no
  state for it.
\<close>

theorem coinciding_sample_without_x_raises:
  assumes "times s \<noteq> []" and "next_step_time s tmax tol < tmax + tol"
    and "advance_integrator (integrator_class s)
           (der_func C (ap s) (model_str s) (v2_integrators s))
           (next_step_time s tmax tol) tol (integrator s) = Some (Inr I)"
    and "int_status I = ''running''"
    and "\<bar>int_t I - next_step_time s tmax tol\<bar> < tol"
    and "ic_x (integrator_class s) I = Inl e"
  shows "iteration C tmax tol s =
           Some (Raise e (s\<lparr>integrator := I,
                            times := times s @ [next_step_time s tmax tol]\<rparr>))
       \<and> main_loop C tmax tol s =
           Some (Inl (e, s\<lparr>integrator := I,
                           times := times s @ [next_step_time s tmax tol]\<rparr>))"
proof -
  let ?nst = "next_step_time s tmax tol"
  have "sample_state (integrator_class s) I ?nst tol = Inl e"
    using assms(5,6) by (simp add: sample_state_def)
  then have "record_sample C s I ?nst tol = Raise e (s\<lparr>integrator := I, times := times s @ [?nst]\<rparr>)"
    by (rule record_sample_no_x)
  with assms(1-4) have it: "iteration C tmax tol s =
      Some (Raise e (s\<lparr>integrator := I, times := times s @ [?nst]\<rparr>))"
    by (simp add: iteration_def Let_def)
  from it main_loop_Raise[OF it] show ?thesis by simp
qed

theorem coinciding_sample_without_x_raises_witness:
  "main_loop (demo_collab None 0 False) 2 default_tol
       (rk45_engine (demo_collab None 0 False) nominal 1 1)
     = Some (Inl (AttributeError,
          (rk45_engine (demo_collab None 0 False) nominal 1 1)
            \<lparr>integrator := \<lparr>int_status = ''running'', int_t = 1, int_y = nominal @ [0, 0, 0],
                             int_data = (0, nominal @ [0, 0, 0])\<rparr>,
             times := [0, 1]\<rparr>))
   \<and> states (rk45_engine (demo_collab None 0 False) nominal 1 1) = [nominal @ [0, 0, 0]]"
proof -
  let ?C = "demo_collab None 0 False"
  let ?s = "rk45_engine ?C nominal 1 1"
  let ?I = "\<lparr>int_status = ''running'', int_t = 1, int_y = nominal @ [0, 0, 0],
             int_data = (0, nominal @ [0::real, 0, 0])\<rparr>"
  have s0: "times ?s = [0]" "states ?s = [nominal @ [0, 0, 0]]"
    and nst: "next_step_time ?s 2 default_tol = 1"
    and cls: "integrator_class ?s = RK45_like 1"
    by (simp_all add: rk45_defs run_defs)
  have adv: "advance_integrator (integrator_class ?s)
        (der_func ?C (ap ?s) (model_str ?s) (v2_integrators ?s))
        (next_step_time ?s 2 default_tol) default_tol (integrator ?s) = Some (Inr ?I)"
    by (simp add: rk45_defs run_defs)
  have ne: "times ?s \<noteq> []" and lt: "next_step_time ?s 2 default_tol < 2 + default_tol"
    and run: "int_status ?I = ''running''"
    and co: "\<bar>int_t ?I - next_step_time ?s 2 default_tol\<bar> < default_tol"
    and nox: "ic_x (integrator_class ?s) ?I = Inl AttributeError"
    using s0 nst cls by (simp_all add: default_tol_def RK45_like_def)
  from coinciding_sample_without_x_raises[OF ne lt adv run co nox] s0 nst
  show ?thesis by simp
qed

subsection \<open>The integrator after a mode change\<close>



subsection \<open>The derivative function\<close>

lemma length_sub_state:
  assumes "i < length fs div nv"
  shows "length (sub_state fs nv i) = nv"
proof -
  from assms have "Suc i \<le> length fs div nv" by simp
  then have "Suc i * nv \<le> length fs div nv * nv" by (rule mult_le_mono1)
  also have "\<dots> \<le> length fs" by simp
  finally have "nv * i + nv \<le> length fs" by (simp add: mult.commute)
  then show ?thesis by (simp add: sub_state_def slice_def)
qed

lemma der_loop_find:
  assumes "\<forall>i\<in>set js. idx_ALPHA C < length (sub_state fs nv i)
             \<and> idx_VEL C < length (sub_state fs nv i) \<and> idx_ALT C < length (sub_state fs nv i)"
  shows "der_loop C a ms v2 tm fs u nv js =
           (case find (\<lambda>i. \<not> in_envelope C (sub_state fs nv i)) js of
              None \<Rightarrow> Inr (map (aircraft_xd C a ms v2 tm fs u nv) js)
            | Some i \<Rightarrow> Inl (first_violation C (sub_state fs nv i)))"
  using assms
proof (induction js)
  case Nil
  show ?case by simp
next
  case (Cons j js)
  then have IH: "der_loop C a ms v2 tm fs u nv js =
           (case find (\<lambda>i. \<not> in_envelope C (sub_state fs nv i)) js of
              None \<Rightarrow> Inr (map (aircraft_xd C a ms v2 tm fs u nv) js)
            | Some i \<Rightarrow> Inl (first_violation C (sub_state fs nv i)))"
    by simp
  from Cons.prems have len: "idx_ALPHA C < length (sub_state fs nv j)"
    "idx_VEL C < length (sub_state fs nv j)" "idx_ALT C < length (sub_state fs nv j)"
    by simp_all
  show ?case
  proof (cases "in_envelope C (sub_state fs nv j)")
    case True
    with len IH show ?thesis
      by (simp add: Let_def in_envelope_def within_bounds_def sub_state_def aircraft_xd_def
               split: option.splits)
  next
    case False
    with len show ?thesis
      by (auto simp: Let_def in_envelope_def within_bounds_def first_violation_def sub_state_def)
  qed
qed

lemma first_violation_props:
  assumes "\<not> in_envelope C st" and "first_violation C st = SimModelError q v"
  shows "\<not> within_bounds q v \<and> v = st ! quantity_index C q"
  using assms
  by (auto simp: in_envelope_def first_violation_def quantity_index_def split: if_splits)

lemma first_violation_is_model_error:
  "\<exists>q v. first_violation C st = SimModelError q v"
  by (simp add: first_violation_def)

lemma der_func_loop:
  assumes "get_checked_u_ref C a tm fs = Inr u"
    and "nv = n_state_names C + llc_get_num_integrators C a" and "0 < nv"
    and "length u div 4 = length fs div nv"
  shows "der_func C a ms v2 tm fs =
           (case der_loop C a ms v2 tm fs u nv [0 ..< length fs div nv] of
              Inl e \<Rightarrow> Inl e
            | Inr xds \<Rightarrow> if xds = [] then Inl ValueError else Inr (concat xds))"
  using assms by (simp add: der_func_def Let_def)

lemma der_func_find:
  assumes acc: "get_checked_u_ref C a tm fs = Inr u"
    and nv: "nv = n_state_names C + llc_get_num_integrators C a"
    and idx: "idx_ALPHA C < nv" "idx_VEL C < nv" "idx_ALT C < nv"
    and cnt: "length u div 4 = length fs div nv"
    and one: "0 < length fs div nv"
  shows "der_func C a ms v2 tm fs =
           (case find (\<lambda>i. \<not> in_envelope C (sub_state fs nv i)) [0 ..< length fs div nv] of
              None \<Rightarrow> Inr (concat (map (aircraft_xd C a ms v2 tm fs u nv) [0 ..< length fs div nv]))
            | Some i \<Rightarrow> Inl (first_violation C (sub_state fs nv i)))"
proof -
  from idx have pos: "0 < nv" by simp
  have "\<forall>i\<in>set [0 ..< length fs div nv]. idx_ALPHA C < length (sub_state fs nv i)
             \<and> idx_VEL C < length (sub_state fs nv i) \<and> idx_ALT C < length (sub_state fs nv i)"
    using idx by (simp add: length_sub_state)
  note lp = der_loop_find[OF this, of a ms v2 tm u]
  have ne: "[0 ..< length fs div nv] \<noteq> []" using one by simp
  show ?thesis
    unfolding der_func_loop[OF acc nv pos cnt] lp using ne
    by (simp split: option.splits)
qed

lemma der_loop_cong:
  assumes "\<forall>i\<in>set js. slice fs (nv * i) (nv * (i + 1)) = slice fs' (nv * i) (nv * (i + 1))"
  shows "der_loop C a ms v2 tm fs u nv js = der_loop C a ms v2 tm fs' u nv js"
  using assms by (induction js) (simp_all add: Let_def)

lemma der_loop_no_assertion:
  "der_loop C a ms v2 tm fs u nv js \<noteq> Inl AssertionError"
  by (induction js) (auto simp: Let_def split: sum.splits)

lemma slice_append_inside:
  assumes "b \<le> length fs"
  shows "slice (fs @ extra) a b = slice fs a b"
  using assms by (simp add: slice_def)

lemma div_with_trailing:
  assumes "k < (nv::nat)"
  shows "(n * nv + k) div nv = n"
  using assms by simp

lemma der_func_unfold:
  assumes "get_checked_u_ref C a tm fs = Inr u"
    and "nv = n_state_names C + llc_get_num_integrators C a" and "0 < nv"
  shows "der_func C a ms v2 tm fs =
           (if length fs div nv \<noteq> length u div 4 then Inl AssertionError
            else case der_loop C a ms v2 tm fs u nv [0 ..< length u div 4] of
                   Inl e \<Rightarrow> Inl e
                 | Inr xds \<Rightarrow> if xds = [] then Inl ValueError else Inr (concat xds))"
proof -
  from assms(2,3) have "n_state_names C + llc_get_num_integrators C a \<noteq> 0" by simp
  with assms(1) show ?thesis unfolding der_func_def Let_def assms(2) by auto
qed

text \<open>
  Claim C6, as stated for every time and concatenated state, fails. With an autopilot
  whose checked accessor raises, the derivative function raises the accessor's error,
  which is not a model-domain error: it does so for a state inside the envelope, where
  the claim has it return the derivatives, and for a state outside the envelope (airspeed
  100), where the claim has it raise the model-domain error. For a state of no aircraft
  no sub-state violates the envelope, and the function raises the error of the
  concatenation of nothing.
\<close>

theorem model_error_iff_envelope_counterexample:
  "in_envelope (demo_collab None 0 True) (nominal @ [0, 0, 0])
   \<and> der_func (demo_collab None 0 True) 0 ''morelli'' False 0 (nominal @ [0, 0, 0])
       = Inl AssertionError
   \<and> \<not> in_envelope (demo_collab None 0 True) (100 # tl (nominal @ [0, 0, 0]))
   \<and> der_func (demo_collab None 0 True) 0 ''morelli'' False 0 (100 # tl (nominal @ [0, 0, 0]))
       = Inl AssertionError
   \<and> der_func (demo_collab None 0 False) 0 ''morelli'' False 0 [] = Inl ValueError"
  by (simp add: der_func_def demo_collab_def nominal_def Let_def in_envelope_def
        within_bounds_def)

text \<open>
  Claim C6, amended. When the autopilot's accessor returns the references of as many
  aircraft as the concatenated state holds (at least one) and the indices of the three
  quantities lie inside a sub-state, the derivative function raises a
  model-domain error if and only if some aircraft sub-state is outside the envelope
  (angle of attack in the open interval from -2 to 2, airspeed in the closed interval
  from 200 to 3000, altitude in the open interval from -10000 to 100000); the error
  carries a quantity of some sub-state and its value, which is out of its bounds;
  otherwise the result is the concatenation of the aircraft derivatives in aircraft
  order.
\<close>

theorem der_func_model_error_iff_envelope:
  assumes acc: "get_checked_u_ref C a tm fs = Inr u"
    and nv: "nv = n_state_names C + llc_get_num_integrators C a"
    and idx: "idx_ALPHA C < nv" "idx_VEL C < nv" "idx_ALT C < nv"
    and cnt: "length u div 4 = length fs div nv"
    and one: "0 < length fs div nv"
  shows "((\<exists>q v. der_func C a ms v2 tm fs = Inl (SimModelError q v))
            \<longleftrightarrow> (\<exists>i < length fs div nv. \<not> in_envelope C (sub_state fs nv i)))
       \<and> (\<forall>q v. der_func C a ms v2 tm fs = Inl (SimModelError q v) \<longrightarrow>
            \<not> within_bounds q v
            \<and> (\<exists>i < length fs div nv. v = sub_state fs nv i ! quantity_index C q))
       \<and> ((\<forall>i < length fs div nv. in_envelope C (sub_state fs nv i)) \<longrightarrow>
            der_func C a ms v2 tm fs =
              Inr (concat (map (aircraft_xd C a ms v2 tm fs u nv) [0 ..< length fs div nv])))"
proof -
  let ?n = "length fs div nv"
  let ?P = "\<lambda>i. \<not> in_envelope C (sub_state fs nv i)"
  note df = der_func_find[OF acc nv idx cnt one, of ms v2]
  show ?thesis
  proof (cases "find ?P [0 ..< ?n]")
    case None
    then have all: "\<forall>i < ?n. in_envelope C (sub_state fs nv i)"
      by (auto simp: find_None_iff)
    with df None show ?thesis by auto
  next
    case (Some i)
    then have i: "i < ?n" "?P i"
      by (auto simp: find_Some_iff)
    obtain q v where fv: "first_violation C (sub_state fs nv i) = SimModelError q v"
      using first_violation_is_model_error by blast
    from first_violation_props[OF i(2) fv] i fv df Some show ?thesis by auto
  qed
qed

theorem der_func_model_error_iff_envelope_witness:
  "der_func (demo_collab None 0 False) 0 ''morelli'' False 0 (nominal @ [0, 0, 0])
     = Inr [0, 0, 0, 0, 0, 0, 0, 0, 0, 0, 0, 0, 0, 0, 0, 0]
   \<and> (\<exists>q v. der_func (demo_collab None 0 False) 0 ''morelli'' False 0
               (100 # tl (nominal @ [0, 0, 0])) = Inl (SimModelError q v))"
proof -
  let ?C = "demo_collab None 0 False"
  let ?fs = "nominal @ [0, 0, 0]"
  let ?bad = "100 # tl (nominal @ [0, 0, 0])"
  have nv: "(16::nat) = n_state_names ?C + llc_get_num_integrators ?C 0"
    and idx: "idx_ALPHA ?C < 16" "idx_VEL ?C < 16" "idx_ALT ?C < 16"
    by (simp_all add: demo_collab_def)
  have acc: "get_checked_u_ref ?C 0 0 ?fs = Inr [0, 0, 0, 0]"
    and accb: "get_checked_u_ref ?C 0 0 ?bad = Inr [0, 0, 0, 0]"
    by (simp_all add: demo_collab_def nominal_def replicate_numeral_eq)
  have cnt: "length [0::real, 0, 0, 0] div 4 = length ?fs div 16"
    and one: "0 < length ?fs div 16"
    and cntb: "length [0::real, 0, 0, 0] div 4 = length ?bad div 16"
    and oneb: "0 < length ?bad div 16"
    by (simp_all add: nominal_def)
  have inenv: "\<forall>i < length ?fs div 16. in_envelope ?C (sub_state ?fs 16 i)"
    by (simp add: nominal_def in_envelope_def within_bounds_def sub_state_def slice_def
          demo_collab_def)
  have viol: "\<exists>i < length ?bad div 16. \<not> in_envelope ?C (sub_state ?bad 16 i)"
    by (simp add: nominal_def in_envelope_def within_bounds_def sub_state_def slice_def
          demo_collab_def)
  from der_func_model_error_iff_envelope[OF acc nv idx cnt one, of "''morelli''" False] inenv
  have "der_func ?C 0 ''morelli'' False 0 ?fs =
          Inr (concat (map (aircraft_xd ?C 0 ''morelli'' False 0 ?fs [0, 0, 0, 0] 16)
                 [0 ..< length ?fs div 16]))"
    by blast
  then have ok: "der_func ?C 0 ''morelli'' False 0 ?fs = Inr [0, 0, 0, 0, 0, 0, 0, 0, 0, 0, 0, 0, 0, 0, 0, 0]"
    by (simp add: nominal_def aircraft_xd_def demo_collab_def replicate_numeral_eq)
  from der_func_model_error_iff_envelope[OF accb nv idx cntb oneb, of "''morelli''" False] viol
  have "\<exists>q v. der_func ?C 0 ''morelli'' False 0 ?bad = Inl (SimModelError q v)"
    by blast
  with ok show ?thesis by blast
qed

text \<open>
  Claim C10. The aircraft-count check of the derivative function divides with rounding
  down: a concatenated state of \<open>n\<close> whole aircraft followed by fewer than one aircraft's
  worth of extra components passes the check when the references are those of \<open>n\<close>
  aircraft, and, the references being the same, the result is the one for the state
  without the extra components.
\<close>

theorem der_func_ignores_trailing_components:
  assumes nv: "nv = n_state_names C + llc_get_num_integrators C a" and pos: "0 < nv"
    and len: "length fs = n * nv" and ex: "length extra < nv"
  shows "(get_checked_u_ref C a tm (fs @ extra) = get_checked_u_ref C a tm fs \<longrightarrow>
            der_func C a ms v2 tm (fs @ extra) = der_func C a ms v2 tm fs)
       \<and> (\<forall>u. get_checked_u_ref C a tm (fs @ extra) = Inr u \<and> length u div 4 = n \<longrightarrow>
            der_func C a ms v2 tm (fs @ extra) \<noteq> Inl AssertionError)"
proof -
  have d1: "length (fs @ extra) div nv = n" using len ex by simp
  have d2: "length fs div nv = n" using len pos by simp
  have sl: "\<And>m. \<forall>i\<in>set [0 ..< m]. i < n \<longrightarrow>
      slice (fs @ extra) (nv * i) (nv * (i + 1)) = slice fs (nv * i) (nv * (i + 1))"
  proof (intro ballI impI)
    fix m i assume "i < n"
    then have "Suc i \<le> n" by simp
    then have "Suc i * nv \<le> n * nv" by (rule mult_le_mono1)
    then have "nv * (i + 1) \<le> length fs" using len by (simp add: mult.commute)
    then show "slice (fs @ extra) (nv * i) (nv * (i + 1)) = slice fs (nv * i) (nv * (i + 1))"
      by (rule slice_append_inside)
  qed
  have lp: "\<And>u. der_loop C a ms v2 tm (fs @ extra) u nv [0 ..< n]
              = der_loop C a ms v2 tm fs u nv [0 ..< n]"
    by (rule der_loop_cong) (use sl[of n] in auto)
  have A: "der_func C a ms v2 tm (fs @ extra) = der_func C a ms v2 tm fs"
    if "get_checked_u_ref C a tm (fs @ extra) = get_checked_u_ref C a tm fs"
  proof (cases "get_checked_u_ref C a tm fs")
    case (Inl e)
    with that show ?thesis by (simp add: der_func_def)
  next
    case (Inr u)
    with that have Inr': "get_checked_u_ref C a tm (fs @ extra) = Inr u" by simp
    show ?thesis
      unfolding der_func_unfold[OF Inr nv pos] der_func_unfold[OF Inr' nv pos] d1 d2
      using lp[of u] by auto
  qed
  have B: "der_func C a ms v2 tm (fs @ extra) \<noteq> Inl AssertionError"
    if "get_checked_u_ref C a tm (fs @ extra) = Inr u" "length u div 4 = n" for u
    unfolding der_func_unfold[OF that(1) nv pos] d1
    using that(2) der_loop_no_assertion[of C a ms v2 tm "fs @ extra" u nv "[0 ..< n]"]
    by (auto split: sum.splits)
  from A B show ?thesis by blast
qed

theorem der_func_ignores_trailing_components_witness:
  "der_func (demo_collab None 0 False) 0 ''morelli'' False 0 ((nominal @ [0, 0, 0]) @ [7, 7])
     = der_func (demo_collab None 0 False) 0 ''morelli'' False 0 (nominal @ [0, 0, 0])
   \<and> der_func (demo_collab None 0 False) 0 ''morelli'' False 0 ((nominal @ [0, 0, 0]) @ [7, 7])
     \<noteq> Inl AssertionError"
proof -
  let ?C = "demo_collab None 0 False"
  let ?fs = "nominal @ [0, 0, 0]"
  have nv: "(16::nat) = n_state_names ?C + llc_get_num_integrators ?C 0"
    by (simp add: demo_collab_def)
  have len: "length ?fs = 1 * 16" and ex: "length [7::real, 7] < 16"
    by (simp_all add: nominal_def)
  have same: "get_checked_u_ref ?C 0 0 (?fs @ [7, 7]) = get_checked_u_ref ?C 0 0 ?fs"
    and acc: "get_checked_u_ref ?C 0 0 (?fs @ [7, 7]) = Inr [0, 0, 0, 0]
                \<and> length [0::real, 0, 0, 0] div 4 = 1"
    by (simp_all add: demo_collab_def nominal_def replicate_numeral_eq)
  have pos: "0 < (16::nat)" by simp
  from der_func_ignores_trailing_components[OF nv pos len ex, of 0 "''morelli''" False] same acc
  show ?thesis by blast
qed

text \<open>
  Claim C5, as stated (validate each sub-state before obtaining its control reference),
  fails: for a state whose angle of attack is 3 and an autopilot whose checked accessor
  raises, the derivative function raises the accessor's error, where validating first
  raises the model-domain error.
\<close>

theorem validate_first_counterexample:
  "der_func (demo_collab None 0 True) 0 ''morelli'' False 0
       [500, 3, 0, 0, 0, 0, 0, 0, 0, 0, 0, 1000, 9, 0, 0, 0] = Inl AssertionError
   \<and> der_func_validate_first (demo_collab None 0 True) 0 ''morelli'' False 0
       [500, 3, 0, 0, 0, 0, 0, 0, 0, 0, 0, 1000, 9, 0, 0, 0] = Inl (SimModelError Alpha 3)"
  by (simp add: der_func_def der_func_validate_first_def demo_collab_def Let_def slice_def
        in_envelope_def within_bounds_def first_violation_def)

text \<open>
  Claim C5, amended. The derivative function first obtains the control references of all
  aircraft, with one call of the accessor on the whole concatenated state and before any
  validation, so that an error of the accessor is the result whatever the state; then it
  goes through the aircraft sub-states in order and stops at the first one outside the
  envelope, with that sub-state's first violated bound.
\<close>

theorem der_func_obtains_references_first:
  "(get_checked_u_ref C a tm fs = Inl e \<longrightarrow> der_func C a ms v2 tm fs = Inl e)
   \<and> (get_checked_u_ref C a tm fs = Inr u
      \<and> nv = n_state_names C + llc_get_num_integrators C a
      \<and> idx_ALPHA C < nv \<and> idx_VEL C < nv \<and> idx_ALT C < nv
      \<and> length u div 4 = length fs div nv \<and> i < length fs div nv
      \<and> (\<forall>j < i. in_envelope C (sub_state fs nv j)) \<and> \<not> in_envelope C (sub_state fs nv i)
      \<longrightarrow> der_func C a ms v2 tm fs = Inl (first_violation C (sub_state fs nv i)))"
proof (intro conjI impI)
  assume "get_checked_u_ref C a tm fs = Inl e"
  then show "der_func C a ms v2 tm fs = Inl e" by (simp add: der_func_def)
next
  assume h: "get_checked_u_ref C a tm fs = Inr u
      \<and> nv = n_state_names C + llc_get_num_integrators C a
      \<and> idx_ALPHA C < nv \<and> idx_VEL C < nv \<and> idx_ALT C < nv
      \<and> length u div 4 = length fs div nv \<and> i < length fs div nv
      \<and> (\<forall>j < i. in_envelope C (sub_state fs nv j)) \<and> \<not> in_envelope C (sub_state fs nv i)"
  let ?n = "length fs div nv"
  from h have one: "0 < ?n" by linarith
  from h have "find (\<lambda>i. \<not> in_envelope C (sub_state fs nv i)) [0 ..< ?n] = Some i"
    by (auto simp: find_Some_iff intro!: exI[of _ i])
  with der_func_find[of C a tm fs u nv ms v2] h one
  show "der_func C a ms v2 tm fs = Inl (first_violation C (sub_state fs nv i))"
    by simp
qed

theorem der_func_obtains_references_first_witness:
  "der_func (demo_collab None 0 True) 0 ''morelli'' False 0
       [500, 3, 0, 0, 0, 0, 0, 0, 0, 0, 0, 1000, 9, 0, 0, 0] = Inl AssertionError
   \<and> der_func (demo_collab None 0 False) 0 ''morelli'' False 0
       [500, 3, 0, 0, 0, 0, 0, 0, 0, 0, 0, 1000, 9, 0, 0, 0] = Inl (SimModelError Alpha 3)"
proof -
  let ?S = "demo_collab None 0 True"
  let ?C = "demo_collab None 0 False"
  let ?fs = "[500, 3, 0, 0, 0, 0, 0, 0, 0, 0, 0, 1000, 9, 0, 0, 0] :: real list"
  have "get_checked_u_ref ?S 0 0 ?fs = Inl AssertionError"
    by (simp add: demo_collab_def)
  with der_func_obtains_references_first[of ?S 0 0 ?fs AssertionError "''morelli''" False]
  have A: "der_func ?S 0 ''morelli'' False 0 ?fs = Inl AssertionError" by blast
  have h: "get_checked_u_ref ?C 0 0 ?fs = Inr [0, 0, 0, 0]
      \<and> (16::nat) = n_state_names ?C + llc_get_num_integrators ?C 0
      \<and> idx_ALPHA ?C < 16 \<and> idx_VEL ?C < 16 \<and> idx_ALT ?C < 16
      \<and> length [0::real, 0, 0, 0] div 4 = length ?fs div 16 \<and> 0 < length ?fs div 16
      \<and> (\<forall>j < (0::nat). in_envelope ?C (sub_state ?fs 16 j))
      \<and> \<not> in_envelope ?C (sub_state ?fs 16 0)"
    by (simp add: demo_collab_def replicate_numeral_eq in_envelope_def within_bounds_def
          sub_state_def slice_def)
  from der_func_obtains_references_first[of ?C 0 0 ?fs _ "''morelli''" False "[0, 0, 0, 0]" 16 0] h
  have "der_func ?C 0 ''morelli'' False 0 ?fs = Inl (first_violation ?C (sub_state ?fs 16 0))"
    by blast
  then have B: "der_func ?C 0 ''morelli'' False 0 ?fs = Inl (SimModelError Alpha 3)"
    by (simp add: first_violation_def within_bounds_def sub_state_def slice_def demo_collab_def)
  from A B show ?thesis by blast
qed

subsection \<open>Calls of simulate\_to\<close>

lemma record_sample_Break_status:
  assumes "record_sample C s I nst tol = Break s'"
  shows "int_status (integrator s') = ''autopilot finished''"
proof (cases "sample_state (integrator_class s) I nst tol")
  case (Inl e)
  with assms show ?thesis by (simp add: record_sample_no_x)
next
  case (Inr st)
  from assms show ?thesis unfolding record_sample_unfold[OF Inr]
    by (auto split: sum.splits if_splits)
qed

lemma iteration_Break_running:
  assumes "iteration C tmax tol s = Some (Break s')" and "int_status (integrator s') = ''running''"
  shows "s' = s"
  using assms(1)
proof (cases rule: iteration_Some_cases)
  case (recorded I)
  from record_sample_Break_status[OF recorded(5)[symmetric]] assms(2) show ?thesis by simp
qed (use assms(2) in auto)

lemma continues_same_settings:
  "(continues C tmax tol)\<^sup>*\<^sup>* s sk \<Longrightarrow> same_settings s sk"
proof (induction rule: rtranclp_induct)
  case base
  show ?case by simp
next
  case (step y z)
  from step.hyps(2) have "same_settings y z"
    using iteration_shape[of C tmax tol y "Continue z" z] by (simp add: continues_def)
  with step.IH show ?case by (rule same_settings_trans)
qed

lemma simulate_to_Inr:
  assumes "simulate_to C tmax tol s = Some (Inr s')"
  shows "cur_sim_time s \<le> tmax" and "int_status (integrator s) = ''running''"
    and "main_loop C tmax tol (s\<lparr>cur_sim_time := tmax\<rparr>) = Some (Inr s')"
  using assms by (auto simp: simulate_to_def split: if_splits)

lemma simulate_to_last_pass:
  assumes "simulate_to C tmax tol s = Some (Inr s')"
  obtains sk where "(continues C tmax tol)\<^sup>*\<^sup>* (s\<lparr>cur_sim_time := tmax\<rparr>) sk"
    and "iteration C tmax tol sk = Some (Break s')"
    and "cur_sim_time sk = tmax" and "same_settings (s\<lparr>cur_sim_time := tmax\<rparr>) sk"
proof -
  from main_loop_last_pass[OF simulate_to_Inr(3)[OF assms]]
  obtain sk where c: "(continues C tmax tol)\<^sup>*\<^sup>* (s\<lparr>cur_sim_time := tmax\<rparr>) sk"
    and b: "iteration C tmax tol sk = Some (Break s')"
    by (auto simp: last_pass_def)
  from continues_same_settings[OF c] have ss: "same_settings (s\<lparr>cur_sim_time := tmax\<rparr>) sk" .
  then have cur: "cur_sim_time sk = tmax" by (simp add: same_settings_def)
  from c b cur ss show ?thesis by (rule that)
qed

text \<open>
  Claim C7. When a call of \<^verbatim>\<open>simulate_to\<close> has returned and left the integrator with
  status \<open>running\<close>, a second call with the same target time and tolerance returns and
  leaves the engine state as it was: no sample is appended and the integrator, with its
  status, is the same.
\<close>

theorem simulate_to_same_target_idempotent:
  assumes "simulate_to C tmax tol s = Some (Inr s1)" and "int_status (integrator s1) = ''running''"
  shows "simulate_to C tmax tol s1 = Some (Inr s1)"
proof -
  from assms(1) obtain sk where b: "iteration C tmax tol sk = Some (Break s1)"
    and cur: "cur_sim_time sk = tmax"
    by (rule simulate_to_last_pass)
  from iteration_Break_running[OF b assms(2)] have eq: "s1 = sk" .
  have id: "s1\<lparr>cur_sim_time := tmax\<rparr> = s1" unfolding eq cur[symmetric] by simp
  from b eq have "main_loop C tmax tol s1 = Some (Inr s1)"
    by (simp add: main_loop_Break)
  then show ?thesis using assms(2) cur eq unfolding simulate_to_def id by simp
qed

theorem simulate_to_same_target_idempotent_witness:
  "\<exists>s1. simulate_to (demo_collab None 0 False) 2 default_tol
            (demo_engine (demo_collab None 0 False) nominal 1 True) = Some (Inr s1)
        \<and> int_status (integrator s1) = ''running'' \<and> times s1 = [0, 1, 2]
        \<and> simulate_to (demo_collab None 0 False) 2 default_tol s1 = Some (Inr s1)"
proof -
  let ?C = "demo_collab None 0 False"
  let ?s = "demo_engine ?C nominal 1 True"
  have "case simulate_to ?C 2 default_tol ?s of
          Some (Inr s1) \<Rightarrow> int_status (integrator s1) = ''running'' \<and> times s1 = [0, 1, 2]
        | _ \<Rightarrow> False"
    by (simp add: eval_defs)
  then obtain s1 where r: "simulate_to ?C 2 default_tol ?s = Some (Inr s1)"
    and st: "int_status (integrator s1) = ''running''" and ts: "times s1 = [0, 1, 2]"
    by (auto split: option.splits sum.splits)
  from simulate_to_same_target_idempotent[OF r st] r st ts show ?thesis by blast
qed

subsection \<open>Construction\<close>

lemma if_Inl_else_Inr:
  "(if c then Inl e else r) = Inr s \<Longrightarrow> \<not> c \<and> r = Inr s"
  by (simp split: if_splits)

lemma case_sum_Inl_Inr:
  "(case x of Inl e \<Rightarrow> Inl e | Inr p \<Rightarrow> f p) = Inr s \<Longrightarrow> \<exists>p. x = Inr p \<and> f p = Inr s"
  by (cases x) auto

lemma case_sum_InrE:
  assumes "(case x of Inl e \<Rightarrow> Inl e | Inr p \<Rightarrow> f p) = Inr s"
  obtains p where "x = Inr p" and "f p = Inr s"
  using assms by (cases x) auto

lemma init_Inr_conj:
  assumes "init C rk45 euler initial_state a0 stp ext integrator_str v2 prt = Inr s"
  shows "times s = [0] \<and> length (states s) = 1 \<and> length (modes s) = 1
       \<and> step s = stp \<and> cur_sim_time s = 0 \<and> extended_states s = ext
       \<and> (ext \<longrightarrow> length (xd_list s) = 1 \<and> length (u_list s) = 1 \<and> length (Nz_list s) = 1
            \<and> length (ps_list s) = 1 \<and> length (Ny_r_list s) = 1)
       \<and> integrator_class s = (if integrator_str = ''rk45'' then rk45 else euler)"
proof -
  note h0 = assms[unfolded init_def Let_def]
  note h1 = if_Inl_else_Inr[OF h0, THEN conjunct2]
  note h2 = if_Inl_else_Inr[OF h1, THEN conjunct2]
  from h2 show ?thesis
  proof (cases rule: case_sum_InrE)
    case (1 p)
    obtain xd u Nz ps Ny_r where p: "p = (xd, u, Nz, ps, Ny_r)" by (cases p) auto
    note h4 = 1(2)[unfolded p prod.case]
    note h5 = if_Inl_else_Inr[OF h4, THEN conjunct2]
    from h5 show ?thesis
    proof (cases rule: case_sum_InrE)
      case made: (1 I0)
      note s = made(2)[unfolded sum.inject, symmetric]
      have "times s = [0]" "length (states s) = 1" "length (modes s) = 1"
        "step s = stp" "cur_sim_time s = 0" "extended_states s = ext"
        "integrator_class s = (if integrator_str = ''rk45'' then rk45 else euler)"
        "ext \<longrightarrow> length (xd_list s) = 1 \<and> length (u_list s) = 1 \<and> length (Nz_list s) = 1
            \<and> length (ps_list s) = 1 \<and> length (Ny_r_list s) = 1"
        by (simp_all add: s)
      then show ?thesis by blast
    qed
  qed
qed

lemma init_Inr_fields:
  assumes "init C rk45 euler initial_state a0 stp ext integrator_str v2 prt = Inr s"
  shows "times s = [0]" and "length (states s) = 1" and "length (modes s) = 1"
    and "step s = stp" and "cur_sim_time s = 0" and "extended_states s = ext"
    and "ext \<Longrightarrow> length (xd_list s) = 1 \<and> length (u_list s) = 1 \<and> length (Nz_list s) = 1
            \<and> length (ps_list s) = 1 \<and> length (Ny_r_list s) = 1"
    and "integrator_class s = (if integrator_str = ''rk45'' then rk45 else euler)"
  using init_Inr_conj[OF assms] by blast+

subsection \<open>The trajectory invariant holds\<close>

lemma next_step_time_after_last:
  assumes "0 < step s" and "0 \<le> tol" and "last (times s) \<le> tmax + tol"
  shows "last (times s) < next_step_time s tmax tol"
  using assms by (auto simp: next_step_time_def)

lemma strictly_sorted_le_last:
  assumes "sorted_wrt (<) ts" and "y \<in> set ts"
  shows "y \<le> last (ts :: real list)"
  using assms
proof (induction ts)
  case Nil
  then show ?case by simp
next
  case (Cons t ts)
  then show ?case by (cases ts) (auto simp: less_imp_le)
qed

lemma strictly_sorted_snoc:
  assumes "sorted_wrt (<) ts" and "ts \<noteq> []" and "last ts < (x :: real)"
  shows "sorted_wrt (<) (ts @ [x])"
  using assms strictly_sorted_le_last[OF assms(1)]
  by (fastforce simp: sorted_wrt_append)

lemma trajectory_ok_sample_added:
  assumes "trajectory_ok s" and "sample_added s tn s'" and "same_settings s s'"
    and "last (times s) < tn"
  shows "trajectory_ok s'"
proof -
  from assms(2) have ts: "times s' = times s @ [tn]" by (simp add: sample_added_def)
  from assms(2) obtain v w where st: "states s' = states s @ [v]" and md: "modes s' = modes s @ [w]"
    unfolding sample_added_def by blast
  from assms(3) have ext: "extended_states s' = extended_states s"
    by (simp add: same_settings_def)
  from assms(1) have ne: "times s \<noteq> []" and srt: "sorted_wrt (<) (times s)"
    and hd0: "hd (times s) = 0" and l1: "length (states s) = length (times s)"
    and l2: "length (modes s) = length (times s)"
    by (simp_all add: trajectory_ok_def)
  have a: "sorted_wrt (<) (times s')" unfolding ts
    using srt ne assms(4) by (rule strictly_sorted_snoc)
  have b: "hd (times s') = 0" using ts ne hd0 by simp
  have c: "times s' \<noteq> []" using ts by simp
  have d: "length (states s') = length (times s')" using st ts l1 by simp
  have e: "length (modes s') = length (times s')" using md ts l2 by simp
  have f: "length (xd_list s') = length (times s') \<and> length (u_list s') = length (times s')
          \<and> length (Nz_list s') = length (times s') \<and> length (ps_list s') = length (times s')
          \<and> length (Ny_r_list s') = length (times s')" if x: "extended_states s"
  proof -
    from assms(2) x obtain v1 v2 v3 v4 v5 where
      "xd_list s' = xd_list s @ [v1]" "u_list s' = u_list s @ [v2]"
      "Nz_list s' = Nz_list s @ [v3]" "ps_list s' = ps_list s @ [v4]"
      "Ny_r_list s' = Ny_r_list s @ [v5]"
      unfolding sample_added_def by auto
    moreover from assms(1) x have "length (xd_list s) = length (times s)"
      "length (u_list s) = length (times s)" "length (Nz_list s) = length (times s)"
      "length (ps_list s) = length (times s)" "length (Ny_r_list s) = length (times s)"
      by (simp_all add: trajectory_ok_def)
    ultimately show ?thesis using ts by simp
  qed
  show ?thesis unfolding trajectory_ok_def ext
    using a b c d e f by blast
qed

lemma trajectory_ok_no_sample:
  assumes "trajectory_ok s" and "no_sample s s'" and "same_settings s s'"
  shows "trajectory_ok s'"
  using assms by (simp add: trajectory_ok_def no_sample_def same_settings_def)

lemma engine_inv_pass:
  assumes it: "iteration C tmax tol s = Some f" and f: "f = Continue s' \<or> f = Break s'"
    and inv: "engine_inv tol s" and cur: "cur_sim_time s = tmax" and tol: "0 \<le> tol"
  shows "engine_inv tol s'"
proof -
  from iteration_shape[OF it f] have ss: "same_settings s s'"
    and sh: "no_sample s s' \<or>
       (next_step_time s tmax tol < tmax + tol \<and> sample_added s (next_step_time s tmax tol) s')"
    by simp_all
  from inv have ok: "trajectory_ok s" and stp: "0 < step s"
    and lst: "last (times s) \<le> cur_sim_time s + tol"
    by (simp_all add: engine_inv_def)
  from ss have stp': "step s' = step s" and cur': "cur_sim_time s' = cur_sim_time s"
    by (simp_all add: same_settings_def)
  from sh show ?thesis
  proof
    assume ns: "no_sample s s'"
    then have "times s' = times s" by (simp add: no_sample_def)
    with trajectory_ok_no_sample[OF ok ns ss] stp lst stp' cur' show ?thesis
      by (simp add: engine_inv_def)
  next
    assume sa: "next_step_time s tmax tol < tmax + tol
       \<and> sample_added s (next_step_time s tmax tol) s'"
    have gt: "last (times s) < next_step_time s tmax tol"
      using stp tol lst cur by (intro next_step_time_after_last) simp_all
    from sa have ts: "times s' = times s @ [next_step_time s tmax tol]"
      by (simp add: sample_added_def)
    from trajectory_ok_sample_added[OF ok _ ss gt] sa have "trajectory_ok s'" by simp
    with sa ts stp stp' cur' cur show ?thesis by (simp add: engine_inv_def)
  qed
qed

lemma engine_inv_continues:
  assumes "(continues C tmax tol)\<^sup>*\<^sup>* s sk" and "engine_inv tol s" and "cur_sim_time s = tmax"
    and "0 \<le> tol"
  shows "engine_inv tol sk \<and> cur_sim_time sk = tmax"
  using assms
proof (induction rule: rtranclp_induct)
  case base
  then show ?case by simp
next
  case (step y z)
  then have y: "engine_inv tol y" "cur_sim_time y = tmax" by simp_all
  from step.hyps(2) have it: "iteration C tmax tol y = Some (Continue z)"
    by (simp add: continues_def)
  from engine_inv_pass[OF it _ y step.prems(3)] have "engine_inv tol z" by simp
  moreover from iteration_shape[OF it] y(2) have "cur_sim_time z = tmax"
    by (simp add: same_settings_def)
  ultimately show ?case by simp
qed

lemma engine_inv_simulate_to:
  assumes r: "simulate_to C tmax tol s = Some (Inr s')" and inv: "engine_inv tol s"
    and tol: "0 \<le> tol"
  shows "engine_inv tol s'"
proof -
  from r obtain sk where c: "(continues C tmax tol)\<^sup>*\<^sup>* (s\<lparr>cur_sim_time := tmax\<rparr>) sk"
    and b: "iteration C tmax tol sk = Some (Break s')"
    by (rule simulate_to_last_pass)
  from simulate_to_Inr(1)[OF r] inv have "engine_inv tol (s\<lparr>cur_sim_time := tmax\<rparr>)"
    by (simp add: engine_inv_def trajectory_ok_def)
  from engine_inv_continues[OF c this _ tol] have "engine_inv tol sk" "cur_sim_time sk = tmax"
    by simp_all
  from engine_inv_pass[OF b _ this tol] show ?thesis by simp
qed

text \<open>
  Claim C4, as stated for every call on a validly constructed engine, fails in two ways.
  The tolerance is a parameter of each call: with output step 1, a call to time 3/2 with
  tolerance 6/10 records the times 0, 1, 2, and the next call, to time 7/4 with the
  default tolerance, takes "a small last step" to its target and appends 7/4 after 2, so
  that the times are not increasing. And the lists are appended to one after the other:
  with extended-state tracking and an autopilot whose checked accessor raises from time 2
  on, a call to time 3 raises out of \<^verbatim>\<open>get_extended_states\<close> at the sample at time 2 with
  the time, the state and the mode already appended, and the next call on that engine
  returns with three times, states and modes and two entries in the extended lists.
\<close>

theorem trajectory_invariant_counterexample:
  "recorded_times (calls (demo_collab None 0 False) [(3/2, 6/10), (7/4, default_tol)]
       (demo_engine (demo_collab None 0 False) nominal 1 False)) = [0, 1, 2, 7/4]
   \<and> raised (simulate_to (demo_collab_valid_until 2) 3 default_tol
       (demo_engine (demo_collab_valid_until 2) nominal 1 True)) = Some AssertionError
   \<and> recorded_lengths (calls (demo_collab_valid_until 2) [(3, default_tol), (3, default_tol)]
       (demo_engine (demo_collab_valid_until 2) nominal 1 True)) = [3, 3, 3, 2, 2, 2, 2, 2]"
proof -
  have a: "recorded_times (calls (demo_collab None 0 False) [(3/2, 6/10), (7/4, default_tol)]
       (demo_engine (demo_collab None 0 False) nominal 1 False)) = [0, 1, 2, 7/4]"
    by (simp add: eval_defs recorded_times_def)
  have b: "raised (simulate_to (demo_collab_valid_until 2) 3 default_tol
       (demo_engine (demo_collab_valid_until 2) nominal 1 True)) = Some AssertionError"
    by (simp add: eval_defs demo_collab_valid_until_def raised_def)
  have c: "recorded_lengths (calls (demo_collab_valid_until 2) [(3, default_tol), (3, default_tol)]
       (demo_engine (demo_collab_valid_until 2) nominal 1 True)) = [3, 3, 3, 2, 2, 2, 2, 2]"
    by (simp add: eval_defs demo_collab_valid_until_def recorded_lengths_def)
  from a b c show ?thesis by simp
qed

text \<open>
  Claim C4, amended. In every engine state that an engine constructed with a positive
  output step is in after any number of calls of \<^verbatim>\<open>simulate_to\<close> that all return and all
  use one tolerance that is not negative, the lists of times, states and modes have the
  same length, with extended-state tracking each of the five extended lists has that
  length too, and the times start at 0 and are strictly increasing.
\<close>

theorem trajectory_lists_aligned_and_increasing:
  assumes "reachable C tol s" and "0 \<le> tol"
  shows "length (states s) = length (times s) \<and> length (modes s) = length (times s)
       \<and> (extended_states s \<longrightarrow>
            length (xd_list s) = length (times s) \<and> length (u_list s) = length (times s)
            \<and> length (Nz_list s) = length (times s) \<and> length (ps_list s) = length (times s)
            \<and> length (Ny_r_list s) = length (times s))
       \<and> times s \<noteq> [] \<and> hd (times s) = 0 \<and> sorted_wrt (<) (times s)"
proof -
  from assms(1) have "engine_inv tol s"
  proof (induction rule: reachable.induct)
    case (constructed rk45 euler initial_state a0 stp ext integrator_str v2 prt s)
    from init_Inr_fields[OF constructed(1)] constructed(2) assms(2) show ?case
      by (simp add: engine_inv_def trajectory_ok_def)
  next
    case (simulated s tmax s')
    from simulated(2) simulated(3) assms(2) show ?case by (rule engine_inv_simulate_to)
  qed
  then show ?thesis by (simp add: engine_inv_def trajectory_ok_def)
qed

theorem trajectory_lists_aligned_and_increasing_witness:
  "\<exists>s1. simulate_to (demo_collab (Some 1) 0 False) (5/2) default_tol
            (demo_engine (demo_collab (Some 1) 0 False) nominal 1 True) = Some (Inr s1)
        \<and> times s1 = [0, 1, 2, 5/2] \<and> extended_states s1
        \<and> length (states s1) = 4 \<and> length (modes s1) = 4
        \<and> length (xd_list s1) = 4 \<and> length (u_list s1) = 4 \<and> length (Nz_list s1) = 4
        \<and> length (ps_list s1) = 4 \<and> length (Ny_r_list s1) = 4
        \<and> hd (times s1) = 0 \<and> sorted_wrt (<) (times s1)"
proof -
  let ?C = "demo_collab (Some 1) 0 False"
  let ?s = "demo_engine ?C nominal 1 True"
  have i: "init ?C Euler Euler nominal 0 1 True ''euler'' False True = Inr ?s"
    by (simp add: demo_defs Let_def)
  have r0: "reachable ?C default_tol ?s"
    by (rule reachable.constructed[OF i]) simp
  have "case simulate_to ?C (5/2) default_tol ?s of
          Some (Inr s1) \<Rightarrow> times s1 = [0, 1, 2, 5/2] \<and> extended_states s1
        | _ \<Rightarrow> False"
    by (simp add: eval_defs)
  then obtain s1 where r: "simulate_to ?C (5/2) default_tol ?s = Some (Inr s1)"
    and ts: "times s1 = [0, 1, 2, 5/2]" and ex: "extended_states s1"
    by (auto split: option.splits sum.splits)
  from r0 r have "reachable ?C default_tol s1" by (rule reachable.simulated)
  from trajectory_lists_aligned_and_increasing[OF this] ts ex r show ?thesis
    by (auto simp: default_tol_def)
qed

subsection \<open>Two calls and one call\<close>

lemma append_extended_cur:
  "append_extended C (s1\<lparr>cur_sim_time := c\<rparr>)
     = map_sum id (\<lambda>u. u\<lparr>cur_sim_time := c\<rparr>) (append_extended C s1)"
  by (simp add: append_extended_def split: sum.splits prod.splits)

lemma appended_cur:
  "appended C (s\<lparr>cur_sim_time := c\<rparr>) I nst st = (appended C s I nst st)\<lparr>cur_sim_time := c\<rparr>"
  by (simp add: appended_def)

lemma record_sample_cur:
  "record_sample C (s\<lparr>cur_sim_time := c\<rparr>) I nst tol
     = map_flow (\<lambda>u. u\<lparr>cur_sim_time := c\<rparr>) (record_sample C s I nst tol)"
proof (cases "sample_state (integrator_class s) I nst tol")
  case (Inl e)
  then have "sample_state (integrator_class (s\<lparr>cur_sim_time := c\<rparr>)) I nst tol = Inl e" by simp
  from record_sample_no_x[OF this] record_sample_no_x[OF Inl] show ?thesis by simp
next
  case (Inr st)
  then have c: "sample_state (integrator_class (s\<lparr>cur_sim_time := c\<rparr>)) I nst tol = Inr st" by simp
  show ?thesis
    unfolding record_sample_unfold[OF c] record_sample_unfold[OF Inr] appended_cur
      append_extended_cur
    by (cases "append_extended C (appended C s I nst st)") (simp_all split: sum.splits)
qed

lemma next_step_time_cur [simp]:
  "next_step_time (s\<lparr>cur_sim_time := c\<rparr>) tmax tol = next_step_time s tmax tol"
  by (simp add: next_step_time_def)

lemma iteration_cur:
  "iteration C tmax tol (s\<lparr>cur_sim_time := c\<rparr>)
     = map_option (map_flow (\<lambda>u. u\<lparr>cur_sim_time := c\<rparr>)) (iteration C tmax tol s)"
  unfolding iteration_def Let_def next_step_time_cur
  by (simp add: record_sample_cur split: option.splits sum.splits prod.splits)

lemma iteration_tmax_cong:
  assumes "next_step_time s t1 tol = next_step_time s t2 tol"
    and "next_step_time s t1 tol < t1 + tol" and "next_step_time s t2 tol < t2 + tol"
  shows "iteration C t1 tol s = iteration C t2 tol s"
  using assms unfolding iteration_def Let_def
  by (simp split: option.splits sum.splits prod.splits)

lemma record_sample_Continue_status:
  assumes "record_sample C s I nst tol = Continue s'" and "int_status I = ''running''"
    and "constructs_running (integrator_class s)"
  shows "int_status (integrator s') = ''running''"
proof (cases "sample_state (integrator_class s) I nst tol")
  case (Inl e)
  with assms(1) show ?thesis by (simp add: record_sample_no_x)
next
  case (Inr st)
  note un = record_sample_unfold[OF Inr, of C]
  obtain s2 where s2: "append_extended C (appended C s I nst st) = Inr s2"
    using assms(1) un by (cases "append_extended C (appended C s I nst st)") auto
  from append_extended_shape[OF s2] have "integrator s2 = I" by (simp add: appended_simps)
  with assms s2 un show ?thesis
    by (auto simp: constructs_running_def split: if_splits sum.splits)
qed

lemma iteration_Continue_status:
  assumes "iteration C tmax tol s = Some (Continue s')"
    and "constructs_running (integrator_class s)"
  shows "int_status (integrator s') = ''running''"
  using assms(1)
proof (cases rule: iteration_Some_cases)
  case (recorded I)
  from record_sample_Continue_status[OF recorded(5)[symmetric] recorded(4) assms(2)]
  show ?thesis .
qed simp_all

lemma iteration_Break_not_running:
  assumes "iteration C tmax tol s = Some (Break s')"
    and "next_step_time s tmax tol < tmax + tol"
  shows "int_status (integrator s') \<noteq> ''running''"
  using assms(1)
proof (cases rule: iteration_Some_cases)
  case (recorded I)
  from record_sample_Break_status[OF recorded(5)[symmetric]] show ?thesis by simp
qed (use assms(2) in auto)

lemma next_step_time_on_grid:
  assumes "0 < tol" and "tol \<le> step s" and "last (times s) + real (Suc m) * step s \<le> t2"
  shows "next_step_time s t2 tol = last (times s) + step s"
    and "next_step_time s t2 tol < t2 + tol"
proof -
  from assms have "0 \<le> real m * step s" by simp
  then have le: "last (times s) + step s \<le> t2" using assms(3) by (simp add: algebra_simps)
  then show "next_step_time s t2 tol = last (times s) + step s"
    by (simp add: next_step_time_def)
  with le assms(1) show "next_step_time s t2 tol < t2 + tol" by simp
qed

lemma iteration_Continue_sample_conj:
  assumes "iteration C tmax tol s = Some (Continue s')"
  shows "sample_added s (next_step_time s tmax tol) s' \<and> next_step_time s tmax tol < tmax + tol"
  using assms
proof (cases rule: iteration_Some_cases)
  case (recorded I)
  from record_sample_shape[OF recorded(5)[symmetric]] recorded(2)
  show ?thesis by auto
qed simp_all

lemmas iteration_Continue_sample =
  iteration_Continue_sample_conj[THEN conjunct1] iteration_Continue_sample_conj[THEN conjunct2]

lemma main_loop_on_grid:
  assumes tol: "0 < tol"
  shows "tol \<le> step s \<Longrightarrow> constructs_running (integrator_class s) \<Longrightarrow> times s \<noteq> []
     \<Longrightarrow> int_status (integrator s) = ''running''
     \<Longrightarrow> t1 = last (times s) + real n * step s \<Longrightarrow> t1 \<le> t2
     \<Longrightarrow> main_loop C t2 tol (s\<lparr>cur_sim_time := t2\<rparr>)
           = resume_to C t2 tol (main_loop C t1 tol (s\<lparr>cur_sim_time := t1\<rparr>))"
proof (induction n arbitrary: s)
  case 0
  then have t1: "t1 = last (times s)" by simp
  have "next_step_time s t1 tol = last (times s) + step s"
    using tol t1 by (simp add: next_step_time_def)
  with 0(1) t1 have "next_step_time s t1 tol \<ge> t1 + tol" by simp
  with 0(3) have "iteration C t1 tol (s\<lparr>cur_sim_time := t1\<rparr>) = Some (Break (s\<lparr>cur_sim_time := t1\<rparr>))"
    by (simp add: iteration_def Let_def)
  then have "main_loop C t1 tol (s\<lparr>cur_sim_time := t1\<rparr>) = Some (Inr (s\<lparr>cur_sim_time := t1\<rparr>))"
    by (rule main_loop_Break)
  with 0(4) show ?case by (simp add: resume_to_def)
next
  case (Suc m)
  let ?u1 = "s\<lparr>cur_sim_time := t1\<rparr>" and ?u2 = "s\<lparr>cur_sim_time := t2\<rparr>"
  from Suc.prems(5) have g1: "last (times s) + real (Suc m) * step s \<le> t1" by simp
  with Suc.prems(6) have g2: "last (times s) + real (Suc m) * step s \<le> t2" by simp
  note n1 = next_step_time_on_grid[OF tol Suc.prems(1) g1]
  note n2 = next_step_time_on_grid[OF tol Suc.prems(1) g2]
  have cong: "iteration C t1 tol s = iteration C t2 tol s"
    by (rule iteration_tmax_cong) (use n1 n2 in simp_all)
  have i1: "iteration C t1 tol ?u1
      = map_option (map_flow (\<lambda>u. u\<lparr>cur_sim_time := t1\<rparr>)) (iteration C t1 tol s)"
    by (rule iteration_cur)
  have i2: "iteration C t2 tol ?u2
      = map_option (map_flow (\<lambda>u. u\<lparr>cur_sim_time := t2\<rparr>)) (iteration C t1 tol s)"
    unfolding cong by (rule iteration_cur)
  show ?case
  proof (cases "iteration C t1 tol s")
    case None
    with i1 i2 show ?thesis by (simp add: main_loop_None resume_to_def)
  next
    case (Some f)
    show ?thesis
    proof (cases f)
      case (Raise e r)
      with Some i1 i2 show ?thesis by (simp add: main_loop_Raise resume_to_def)
    next
      case (Break b)
      from iteration_Break_not_running[OF Some[unfolded Break] n1(2)]
      have nr: "int_status (integrator b) \<noteq> ''running''" .
      from Some Break i1 i2
      have "main_loop C t1 tol ?u1 = Some (Inr (b\<lparr>cur_sim_time := t1\<rparr>))"
        and "main_loop C t2 tol ?u2 = Some (Inr (b\<lparr>cur_sim_time := t2\<rparr>))"
        by (simp_all add: main_loop_Break)
      with nr show ?thesis by (simp add: resume_to_def)
    next
      case (Continue c)
      note it = Some[unfolded Continue]
      from Some Continue i1 i2
      have l1: "main_loop C t1 tol ?u1 = main_loop C t1 tol (c\<lparr>cur_sim_time := t1\<rparr>)"
        and l2: "main_loop C t2 tol ?u2 = main_loop C t2 tol (c\<lparr>cur_sim_time := t2\<rparr>)"
        by (simp_all add: main_loop_Continue)
      from iteration_shape[OF it] have ss: "same_settings s c"
        and sa: "no_sample s c \<or> sample_added s (next_step_time s t1 tol) c" by auto
      from iteration_Continue_sample(1)[OF it] have ts: "times c = times s @ [next_step_time s t1 tol]"
        by (rule sample_added_times)
      have st: "int_status (integrator c) = ''running''"
        using it Suc.prems(2) by (rule iteration_Continue_status)
      from ss have stp: "step c = step s" and cls: "integrator_class c = integrator_class s"
        by (simp_all add: same_settings_def)
      have grid: "t1 = last (times c) + real m * step c"
        using Suc.prems(5) ts n1(1) stp by (simp add: algebra_simps)
      have ne: "times c \<noteq> []" using ts by simp
      from Suc.IH[of c] Suc.prems(1,2,6) stp cls ne st grid
      have "main_loop C t2 tol (c\<lparr>cur_sim_time := t2\<rparr>)
              = resume_to C t2 tol (main_loop C t1 tol (c\<lparr>cur_sim_time := t1\<rparr>))"
        by simp
      with l1 l2 show ?thesis by simp
    qed
  qed
qed

lemma simulate_to_cur:
  assumes "simulate_to C tmax tol s = Some (Inr s')"
  shows "cur_sim_time s' = tmax"
proof -
  from assms obtain sk where b: "iteration C tmax tol sk = Some (Break s')"
    and cur: "cur_sim_time sk = tmax"
    by (rule simulate_to_last_pass)
  from iteration_shape[OF b] cur show ?thesis by (simp add: same_settings_def)
qed

text \<open>
  Claim C3, as stated for every pair of target times, fails: with output step 1, a call
  to time 1/2 records a shortened last step at 1/2 and the next call goes on from there
  (3/2, then 2), while a single call to time 2 records 0, 1, 2. The sample at 1/2 is in
  the first trajectory and not in the second.
\<close>

theorem incremental_prefix_counterexample:
  "recorded_times (two_calls (demo_collab None 0 False) (1/2) 2 default_tol
       (demo_engine (demo_collab None 0 False) nominal 1 False)) = [0, 1/2, 3/2, 2]
   \<and> recorded_times (simulate_to (demo_collab None 0 False) 2 default_tol
       (demo_engine (demo_collab None 0 False) nominal 1 False)) = [0, 1, 2]
   \<and> \<not> prefix (up_to (1/2) (recorded_times (two_calls (demo_collab None 0 False) (1/2) 2 default_tol
                 (demo_engine (demo_collab None 0 False) nominal 1 False))))
          (recorded_times (simulate_to (demo_collab None 0 False) 2 default_tol
                 (demo_engine (demo_collab None 0 False) nominal 1 False)))"
proof -
  let ?C = "demo_collab None 0 False"
  let ?s = "demo_engine ?C nominal 1 False"
  have two: "recorded_times (two_calls ?C (1/2) 2 default_tol ?s) = [0, 1/2, 3/2, 2]"
    by (simp add: eval_defs two_calls_def recorded_times_def)
  have one: "recorded_times (simulate_to ?C 2 default_tol ?s) = [0, 1, 2]"
    by (simp add: eval_defs recorded_times_def)
  show ?thesis unfolding two one by (simp add: up_to_def)
qed

text \<open>
  Claim C3, amended. When the first target time is on the output grid of the engine (the
  last recorded time plus a whole number of output steps; for a constructed engine, a
  multiple of the step), the tolerance is positive and not above the step, and the
  integrator class constructs running instances, then after a first call that returns,
  the call to a later target gives what the single call to that target gives from the
  start: the same result when the first call left the integrator running, and otherwise
  the single call returns the engine state that the first call left (with the later
  target as current time), so that the trajectories agree.
\<close>

theorem simulate_to_in_two_calls_on_grid:
  assumes tol: "0 < tol" "tol \<le> step s" and cls: "constructs_running (integrator_class s)"
    and ne: "times s \<noteq> []" and grid: "t1 = last (times s) + real n * step s"
    and le: "t1 \<le> t2" and first: "simulate_to C t1 tol s = Some (Inr s1)"
  shows "if int_status (integrator s1) = ''running''
         then simulate_to C t2 tol s1 = simulate_to C t2 tol s
         else simulate_to C t2 tol s = Some (Inr (s1\<lparr>cur_sim_time := t2\<rparr>))"
proof -
  note f = simulate_to_Inr[OF first]
  from main_loop_on_grid[OF tol(1) tol(2) cls ne f(2) grid le, of C] f(3)
  have ml: "main_loop C t2 tol (s\<lparr>cur_sim_time := t2\<rparr>) = resume_to C t2 tol (Some (Inr s1))"
    by simp
  from f(1,2) le have single: "simulate_to C t2 tol s = main_loop C t2 tol (s\<lparr>cur_sim_time := t2\<rparr>)"
    by (simp add: simulate_to_def)
  from simulate_to_cur[OF first] le have "cur_sim_time s1 \<le> t2" by simp
  then have second: "int_status (integrator s1) = ''running'' \<Longrightarrow>
      simulate_to C t2 tol s1 = main_loop C t2 tol (s1\<lparr>cur_sim_time := t2\<rparr>)"
    by (simp add: simulate_to_def)
  show ?thesis
  proof (cases "int_status (integrator s1) = ''running''")
    case True
    with second single ml show ?thesis by (simp add: resume_to_def)
  next
    case False
    with single ml show ?thesis by (simp add: resume_to_def)
  qed
qed

theorem simulate_to_in_two_calls_on_grid_witness:
  "\<exists>s1. simulate_to (demo_collab None 0 False) 1 default_tol
            (demo_engine (demo_collab None 0 False) nominal 1 False) = Some (Inr s1)
        \<and> int_status (integrator s1) = ''running''
        \<and> simulate_to (demo_collab None 0 False) (5/2) default_tol s1
            = simulate_to (demo_collab None 0 False) (5/2) default_tol
                (demo_engine (demo_collab None 0 False) nominal 1 False)
        \<and> recorded_times (simulate_to (demo_collab None 0 False) (5/2) default_tol s1)
            = [0, 1, 2, 5/2]"
proof -
  let ?C = "demo_collab None 0 False"
  let ?s = "demo_engine ?C nominal 1 False"
  have "case simulate_to ?C 1 default_tol ?s of
          Some (Inr s1) \<Rightarrow> int_status (integrator s1) = ''running''
        | _ \<Rightarrow> False"
    by (simp add: eval_defs)
  then obtain s1 where r: "simulate_to ?C 1 default_tol ?s = Some (Inr s1)"
    and st: "int_status (integrator s1) = ''running''"
    by (auto split: option.splits sum.splits)
  have tol: "0 < default_tol" "default_tol \<le> step ?s"
    and cls: "constructs_running (integrator_class ?s)"
    and ne: "times ?s \<noteq> []" and grid: "(1::real) = last (times ?s) + real (1::nat) * step ?s"
    by (simp_all add: demo_defs Let_def constructs_running_def)
  from simulate_to_in_two_calls_on_grid[OF tol cls ne grid _ r, of "5/2"] st
  have eq: "simulate_to ?C (5/2) default_tol s1 = simulate_to ?C (5/2) default_tol ?s"
    by simp
  have "recorded_times (simulate_to ?C (5/2) default_tol ?s) = [0, 1, 2, 5/2]"
    by (simp add: eval_defs recorded_times_def)
  with r st eq show ?thesis by auto
qed

subsection \<open>The final status of a run\<close>

lemma record_sample_Break_finished:
  assumes "record_sample C s I nst tol = Break s'"
  shows "\<exists>a tm x. is_finished C a tm x"
proof (cases "sample_state (integrator_class s) I nst tol")
  case (Inl e)
  with assms show ?thesis by (simp add: record_sample_no_x)
next
  case (Inr st)
  from assms show ?thesis unfolding record_sample_unfold[OF Inr]
    by (auto split: sum.splits if_splits)
qed

lemma record_sample_Continue_same_mode:
  assumes "record_sample C s I nst tol = Continue s'" and "int_status I = ''running''"
    and "\<forall>a tm x. \<not> fst (advance_discrete_mode C a tm x)"
  shows "int_status (integrator s') = ''running''"
proof (cases "sample_state (integrator_class s) I nst tol")
  case (Inl e)
  with assms(1) show ?thesis by (simp add: record_sample_no_x)
next
  case (Inr st)
  note un = record_sample_unfold[OF Inr, of C]
  obtain s2 where s2: "append_extended C (appended C s I nst st) = Inr s2"
    using assms(1) un by (cases "append_extended C (appended C s I nst st)") auto
  from append_extended_shape[OF s2] have "integrator s2 = I" by (simp add: appended_simps)
  with assms s2 un show ?thesis
    by (auto split: if_splits)
qed

lemma iteration_Continue_same_mode:
  assumes "iteration C tmax tol s = Some (Continue s')"
    and "\<forall>a tm x. \<not> fst (advance_discrete_mode C a tm x)"
  shows "int_status (integrator s') = ''running''"
  using assms(1)
proof (cases rule: iteration_Some_cases)
  case (recorded I)
  from record_sample_Continue_same_mode[OF recorded(5)[symmetric] recorded(4) assms(2)]
  show ?thesis .
qed simp_all

lemma continues_same_mode_running:
  assumes "(continues C tmax tol)\<^sup>*\<^sup>* s sk" and "int_status (integrator s) = ''running''"
    and "\<forall>a tm x. \<not> fst (advance_discrete_mode C a tm x)"
  shows "int_status (integrator sk) = ''running''"
  using assms
proof (induction rule: rtranclp_induct)
  case base
  then show ?case by simp
next
  case (step y z)
  from step.hyps(2) have "iteration C tmax tol y = Some (Continue z)"
    by (simp add: continues_def)
  from iteration_Continue_same_mode[OF this step.prems(2)] show ?case .
qed

lemma stopped_short_of_target:
  assumes "next_step_time s tmax tol < tmax + tol" and "2 * tol \<le> step s"
  shows "\<not> \<bar>last (times s) - tmax\<bar> < tol"
  using assms by (auto simp: next_step_time_def split: if_splits)

lemma last_pass_status_running:
  assumes b: "iteration C tmax tol sk = Some (Break s1)"
    and run: "int_status (integrator sk) = ''running''"
    and nf: "\<forall>a tm x. \<not> is_finished C a tm x"
    and stp: "2 * tol \<le> step sk"
    and close: "\<bar>last (times s1) - tmax\<bar> < tol"
  shows "int_status (integrator s1) = ''running''"
  using b
proof (cases rule: iteration_Some_cases)
  case empty
  then show ?thesis by simp
next
  case covered
  with run show ?thesis by simp
next
  case (raised e I)
  then show ?thesis by simp
next
  case (stopped I)
  from stopped(5) have "times s1 = times sk" by simp
  with stopped_short_of_target[OF stopped(2) stp] close show ?thesis by simp
next
  case (recorded I)
  from record_sample_Break_finished[OF recorded(5)[symmetric]] nf show ?thesis by blast
qed

lemma bind_case_sum_Inr:
  assumes "Option.bind m (\<lambda>r. case r of Inl (e, s) \<Rightarrow> Some (Inl e) | Inr x \<Rightarrow> g x)
             = Some (Inr y)"
  shows "\<exists>x. m = Some (Inr x) \<and> g x = Some (Inr y)"
proof (cases m)
  case None
  with assms show ?thesis by simp
next
  case (Some q)
  with assms show ?thesis by (cases q) (simp_all split: prod.splits)
qed

lemma if_Some_Inl_else:
  "(if c then Some (Inl e) else Some (Inr v)) = Some (Inr y) \<Longrightarrow> \<not> c \<and> y = v"
  by (auto split: if_splits)

text \<open>
  Claim C2 expects the final status \<open>finished\<close>. The engine constructs its integrator with
  the bound \<^verbatim>\<open>np.inf\<close> and never writes \<open>finished\<close> itself, and a step that leaves the
  integrator with another status than \<open>running\<close> ends the loop before the sample is
  recorded. So whatever the integrator classes do: when \<^verbatim>\<open>run_f16_sim\<close> returns (its
  assertion on the last recorded time holds), with an output step of at least twice the
  tolerance and an autopilot that never changes mode and never declares completion, the
  status in the result is \<open>running\<close>, not \<open>finished\<close>.
\<close>

theorem run_f16_sim_status_is_running:
  assumes run: "run_f16_sim C rk45 euler initial_state tmax a0 stp ext integrator_str v2 prt
                  = Some (Inr r)"
    and stp: "2 * default_tol \<le> stp"
    and nm: "\<forall>a tm x. \<not> fst (advance_discrete_mode C a tm x)"
    and nf: "\<forall>a tm x. \<not> is_finished C a tm x"
  shows "res_status r = ''running'' \<and> res_status r \<noteq> ''finished''"
proof -
  from run obtain s0 where i: "init C rk45 euler initial_state a0 stp ext integrator_str v2 prt = Inr s0"
    by (cases "init C rk45 euler initial_state a0 stp ext integrator_str v2 prt")
      (auto simp: run_f16_sim_def)
  from run i have "Option.bind (simulate_to C tmax default_tol s0)
            (\<lambda>r. case r of
                   Inl (e, fss) \<Rightarrow> Some (Inl e)
                 | Inr fss \<Rightarrow>
                     if \<not> \<bar>last (times fss) - tmax\<bar> < 1 / 10000000 then Some (Inl AssertionError)
                     else Some (Inr \<lparr> res_status = int_status (integrator fss),
                                      res_times = times fss, res_states = states fss,
                                      res_modes = modes fss, res_xd_list = xd_list fss,
                                      res_ps_list = ps_list fss, res_Nz_list = Nz_list fss,
                                      res_Ny_r_list = Ny_r_list fss,
                                      res_u_list = u_list fss \<rparr>)) = Some (Inr r)"
    unfolding run_f16_sim_def by (simp only: sum.case)
  from bind_case_sum_Inr[OF this] obtain s1
    where sim: "simulate_to C tmax default_tol s0 = Some (Inr s1)"
      and k: "(if \<not> \<bar>last (times s1) - tmax\<bar> < 1 / 10000000 then Some (Inl AssertionError)
               else Some (Inr \<lparr> res_status = int_status (integrator s1),
                                res_times = times s1, res_states = states s1,
                                res_modes = modes s1, res_xd_list = xd_list s1,
                                res_ps_list = ps_list s1, res_Nz_list = Nz_list s1,
                                res_Ny_r_list = Ny_r_list s1,
                                res_u_list = u_list s1 \<rparr>)) = Some (Inr r)"
    by blast
  note k' = if_Some_Inl_else[OF k]
  from k' have close: "\<bar>last (times s1) - tmax\<bar> < default_tol"
    unfolding default_tol_def by blast
  from k' have "r = \<lparr> res_status = int_status (integrator s1),
                                res_times = times s1, res_states = states s1,
                                res_modes = modes s1, res_xd_list = xd_list s1,
                                res_ps_list = ps_list s1, res_Nz_list = Nz_list s1,
                                res_Ny_r_list = Ny_r_list s1,
                                res_u_list = u_list s1 \<rparr>"
    by blast
  then have r: "res_status r = int_status (integrator s1)" by simp
  from sim obtain sk where c: "(continues C tmax default_tol)\<^sup>*\<^sup>* (s0\<lparr>cur_sim_time := tmax\<rparr>) sk"
    and b: "iteration C tmax default_tol sk = Some (Break s1)"
    and ss: "same_settings (s0\<lparr>cur_sim_time := tmax\<rparr>) sk"
    by (rule simulate_to_last_pass)
  from simulate_to_Inr(2)[OF sim]
  have "int_status (integrator (s0\<lparr>cur_sim_time := tmax\<rparr>)) = ''running''" by simp
  from continues_same_mode_running[OF c this nm]
  have run_k: "int_status (integrator sk) = ''running''" .
  from ss init_Inr_fields(4)[OF i] have "step sk = stp" by (simp add: same_settings_def)
  with stp have "2 * default_tol \<le> step sk" by simp
  from last_pass_status_running[OF b run_k nf this close] r show ?thesis by simp
qed

text \<open>The run of claim C2 with the fixed-step integrator: 150 passes on the grid, then the
  loop ends.\<close>

lemma demo_der_nominal:
  "der_func (demo_collab None 0 False) 0 ''morelli'' False tm (nominal @ [0, 0, 0])
     = Inr [0, 0, 0, 0, 0, 0, 0, 0, 0, 0, 0, 0, 0, 0, 0, 0]"
  by (simp add: der_func_def demo_collab_def nominal_def Let_def slice_def replicate_numeral_eq)

lemma advance_one_step:
  assumes "nst \<ge> int_t I + tol" and "ic_step cls der I = Inr I'"
    and "int_status I' = ''running''" and "\<not> nst \<ge> int_t I' + tol"
  shows "advance_integrator cls der nst tol I = Some (Inr I')"
proof -
  have "advance_integrator cls der nst tol I = advance_integrator cls der nst tol I'"
    using assms(1,2,3) by (subst advance_integrator.simps) simp
  also have "\<dots> = Some (Inr I')"
    using assms(4) by (subst advance_integrator.simps) simp
  finally show ?thesis .
qed

lemma euler_step_nominal:
  assumes "int_y I = nominal @ [0, 0, 0]" and "fst (int_data I) = h"
  shows "ic_step Euler (der_func (demo_collab None 0 False) 0 ''morelli'' False) I
           = Inr (I\<lparr>int_t := int_t I + h, int_data := (h, int_t I, nominal @ [0, 0, 0]),
                    int_status := ''running''\<rparr>)"
proof -
  have "map2 (\<lambda>y d. y + h * d) (nominal @ [0, 0, 0])
          [0, 0, 0, 0, 0, 0, 0, 0, 0, 0, 0, 0, 0, 0, 0, 0] = nominal @ [0, 0, 0]"
    by (simp add: nominal_def)
  with assms show ?thesis
    by (simp add: Euler_def step_of_scheme_def euler_scheme_def demo_der_nominal Let_def)
qed

lemma nominal_step_bounds:
  "0 < nominal_step" "default_tol < nominal_step" "0 < default_tol"
  by (simp_all add: nominal_step_def default_tol_def)

lemma nominal_grid_below:
  assumes "k < 150"
  shows "real k * nominal_step + nominal_step \<le> 5"
proof -
  from assms have "real k \<le> 149" by simp
  then show ?thesis by (simp add: nominal_step_def)
qed

lemma nominal_grid_end: "real (150::nat) * nominal_step = 5"
  by (simp add: nominal_step_def)

lemma steady_pass:
  assumes sa: "steady_at k s" and k: "k < 150"
  shows "\<exists>s'. iteration (demo_collab None 0 False) 5 default_tol s = Some (Continue s')
              \<and> steady_at (Suc k) s'"
proof -
  let ?C = "demo_collab None 0 False"
  let ?der = "der_func ?C 0 ''morelli'' False"
  let ?I = "integrator s"
  let ?h = nominal_step
  let ?x0 = "nominal @ [0, 0, 0]"
  let ?I' = "?I\<lparr>int_t := int_t ?I + ?h, int_data := (?h, int_t ?I, ?x0),
                 int_status := ''running''\<rparr>"
  let ?nst = "real k * ?h + ?h"
  from sa have ts: "times s = map (\<lambda>i. real i * ?h) [0 ..< Suc k]"
    and a: "ap s = 0" and stp: "step s = ?h" and ext: "\<not> extended_states s"
    and ms: "model_str s = ''morelli''" and v2: "\<not> v2_integrators s"
    and cls: "integrator_class s = Euler"
    and run: "int_status ?I = ''running''" and t: "int_t ?I = real k * ?h"
    and x: "int_y ?I = ?x0" and h: "fst (int_data ?I) = ?h"
    by (simp_all add: steady_at_def)
  have ne: "times s \<noteq> []" and lst: "last (times s) = real k * ?h"
    by (simp_all add: ts)
  note below = nominal_grid_below[OF k]
  have nst: "next_step_time s 5 default_tol = ?nst"
    unfolding next_step_time_def lst stp using below by simp
  have go: "\<not> next_step_time s 5 default_tol \<ge> 5 + default_tol"
    unfolding nst using below nominal_step_bounds(3) by simp
  have st: "ic_step Euler ?der ?I = Inr ?I'"
    using x h by (rule euler_step_nominal)
  have adv: "advance_integrator Euler ?der ?nst default_tol ?I = Some (Inr ?I')"
  proof (rule advance_one_step[OF _ st])
    show "int_t ?I + default_tol \<le> ?nst"
      unfolding t using nominal_step_bounds(2) by simp
    show "int_status ?I' = ''running''" by simp
    show "\<not> int_t ?I' + default_tol \<le> ?nst"
      using t nominal_step_bounds(3) by simp
  qed
  let ?s' = "s\<lparr>integrator := ?I', times := times s @ [?nst], states := states s @ [?x0],
               ap := 0, modes := modes s @ [0]\<rparr>"
  have smp: "sample_state (integrator_class s) ?I' ?nst default_tol = Inr ?x0"
    unfolding cls using t x nominal_step_bounds(3) by (simp add: sample_state_def Euler_def)
  have adm: "advance_discrete_mode ?C 0 ?nst ?x0 = (False, 0)"
    and fin: "\<not> is_finished ?C 0 ?nst ?x0" and md: "ap_mode ?C 0 = 0"
    by (simp_all add: demo_collab_def)
  have app: "appended ?C s ?I' ?nst ?x0 = ?s'"
    unfolding appended_def a adm snd_conv md by simp
  have rec: "record_sample ?C s ?I' ?nst default_tol = Continue ?s'"
    unfolding record_sample_unfold[OF smp] app a adm fst_conv snd_conv
    using ext fin by (simp add: append_extended_def)
  have it: "iteration ?C 5 default_tol s = Some (Continue ?s')"
    unfolding iteration_def Let_def nst[unfolded] cls a ms using ne go[unfolded nst] v2 adv rec
    by (simp add: nst)
  have "real (Suc k) * ?h = ?nst" by (simp add: algebra_simps)
  then have "steady_at (Suc k) ?s'"
    using ts a stp ext ms v2 cls x h t unfolding steady_at_def by simp
  with it show ?thesis by blast
qed

lemma last_map_upt_Suc: "last (map f [0 ..< Suc n]) = f n"
  by simp

lemma map_upt_Suc_nonempty: "map f [0 ..< Suc n] \<noteq> []"
  by simp

lemma steady_end:
  assumes sa: "steady_at 150 s"
  shows "iteration (demo_collab None 0 False) 5 default_tol s = Some (Break s)"
proof -
  from sa have ts: "times s = map (\<lambda>i. real i * nominal_step) [0 ..< Suc 150]"
    and stp: "step s = nominal_step"
    by (simp_all add: steady_at_def)
  have ne: "times s \<noteq> []" unfolding ts by (rule map_upt_Suc_nonempty)
  have lst: "last (times s) = 5" unfolding ts last_map_upt_Suc by (rule nominal_grid_end)
  have "next_step_time s 5 default_tol = 5 + nominal_step"
    unfolding next_step_time_def lst stp using nominal_step_bounds(3) by simp
  then have "next_step_time s 5 default_tol \<ge> 5 + default_tol"
    using nominal_step_bounds(2) by simp
  with ne show ?thesis by (simp add: iteration_def Let_def)
qed

lemma steady_loop:
  assumes "steady_at k s" and "k \<le> 150"
  shows "\<exists>s'. main_loop (demo_collab None 0 False) 5 default_tol s = Some (Inr s')
              \<and> steady_at 150 s'"
  using assms
proof (induction "150 - k" arbitrary: k s)
  case 0
  then have "k = 150" by simp
  with 0 steady_end[of s] show ?case by (auto simp: main_loop_Break)
next
  case (Suc n)
  then have k: "k < 150" by simp
  from steady_pass[OF Suc.prems(1) k] obtain s1
    where it: "iteration (demo_collab None 0 False) 5 default_tol s = Some (Continue s1)"
      and s1: "steady_at (Suc k) s1" by blast
  from Suc.hyps(2) k have "n = 150 - Suc k" and "Suc k \<le> 150" by simp_all
  from Suc.hyps(1)[OF this(1) s1 this(2)] main_loop_Continue[OF it] show ?case by simp
qed

lemma steady_start:
  "steady_at 0 ((demo_engine (demo_collab None 0 False) nominal (1 / 30) False)\<lparr>cur_sim_time := 5\<rparr>)"
  by (simp add: steady_at_def demo_defs Let_def nominal_step_def)

lemma steady_times:
  assumes "steady_at 150 s"
  shows "length (times s) = 151" and "last (times s) = 5"
proof -
  from assms have ts: "times s = map (\<lambda>i. real i * nominal_step) [0 ..< Suc 150]"
    by (simp add: steady_at_def)
  show "length (times s) = 151" unfolding ts by simp
  show "last (times s) = 5" unfolding ts last_map_upt_Suc by (rule nominal_grid_end)
qed

lemma nominal_run:
  "\<exists>r. run_f16_sim (demo_collab None 0 False) Euler Euler nominal 5 0 (1 / 30) False
          ''euler'' False True = Some (Inr r)
       \<and> length (res_times r) = 151 \<and> last (res_times r) = 5"
proof -
  let ?C = "demo_collab None 0 False"
  let ?s0 = "demo_engine ?C nominal (1 / 30) False"
  have i: "init ?C Euler Euler nominal 0 (1 / 30) False ''euler'' False True = Inr ?s0"
    by (simp add: demo_defs Let_def)
  have pre: "cur_sim_time ?s0 \<le> 5" "int_status (integrator ?s0) = ''running''"
    by (simp_all add: demo_defs Let_def)
  from steady_loop[OF steady_start] obtain s'
    where ml: "main_loop ?C 5 default_tol (?s0\<lparr>cur_sim_time := 5\<rparr>) = Some (Inr s')"
      and e: "steady_at 150 s'" by auto
  from pre ml have sim: "simulate_to ?C 5 default_tol ?s0 = Some (Inr s')"
    by (simp add: simulate_to_def)
  note tm = steady_times[OF e]
  have "run_f16_sim ?C Euler Euler nominal 5 0 (1 / 30) False ''euler'' False True
      = Some (Inr \<lparr> res_status = int_status (integrator s'),
                                      res_times = times s', res_states = states s',
                                      res_modes = modes s', res_xd_list = xd_list s',
                                      res_ps_list = ps_list s', res_Nz_list = Nz_list s',
                                      res_Ny_r_list = Ny_r_list s',
                                      res_u_list = u_list s' \<rparr>)"
    by (simp add: run_f16_sim_def i sim tm(2))
  with tm show ?thesis by simp
qed

theorem run_f16_sim_status_is_running_witness:
  "\<exists>r. run_f16_sim (demo_collab None 0 False) Euler Euler nominal 5 0 (1 / 30) False
          ''euler'' False True = Some (Inr r)
       \<and> length (res_times r) = 151 \<and> last (res_times r) = 5
       \<and> res_status r = ''running'' \<and> res_status r \<noteq> ''finished''"
proof -
  let ?C = "demo_collab None 0 False"
  from nominal_run obtain r where run: "run_f16_sim ?C Euler Euler nominal 5 0 (1 / 30) False
      ''euler'' False True = Some (Inr r)"
    and ts: "length (res_times r) = 151" "last (res_times r) = 5"
    by blast
  have stp: "2 * default_tol \<le> 1 / 30" by (simp add: default_tol_def)
  have nm: "\<forall>a tm x. \<not> fst (advance_discrete_mode ?C a tm x)"
    and nf: "\<forall>a tm x. \<not> is_finished ?C a tm x"
    by (simp_all add: demo_collab_def)
  from run_f16_sim_status_is_running[OF run stp nm nf] run ts show ?thesis by blast
qed

subsection \<open>A failing step\<close>

lemma advance_running_step:
  assumes "running_step cls der nst tol I I'"
  shows "advance_integrator cls der nst tol I = advance_integrator cls der nst tol I'"
  using assms unfolding running_step_def
  by (subst advance_integrator.simps) auto

lemma advance_running_steps:
  assumes "(running_step cls der nst tol)\<^sup>*\<^sup>* I Ij"
  shows "advance_integrator cls der nst tol I = advance_integrator cls der nst tol Ij"
  using assms by (induction rule: rtranclp_induct) (simp_all add: advance_running_step)

lemma advance_stops:
  assumes "nst \<ge> int_t I + tol" and "ic_step cls der I = Inr I'"
    and "int_status I' \<noteq> ''running''"
  shows "advance_integrator cls der nst tol I = Some (Inr I')"
  using assms by (subst advance_integrator.simps) simp

lemma advance_raises:
  assumes "nst \<ge> int_t I + tol" and "ic_step cls der I = Inl e"
  shows "advance_integrator cls der nst tol I = Some (Inl (e, I))"
  using assms by (subst advance_integrator.simps) simp

lemma samples_preserved_refl [simp]: "samples_preserved s s"
  by (simp add: samples_preserved_def)

lemma samples_preserved_trans:
  "samples_preserved s s' \<Longrightarrow> samples_preserved s' s'' \<Longrightarrow> samples_preserved s s''"
  unfolding samples_preserved_def by (meson prefix_order.trans)

lemma samples_preserved_sample_added:
  assumes "sample_added s tn s'"
  shows "samples_preserved s s'"
proof (cases "extended_states s")
  case True
  with assms show ?thesis
    unfolding samples_preserved_def sample_added_def by auto
next
  case False
  with assms show ?thesis
    unfolding samples_preserved_def sample_added_def by auto
qed

lemma continues_samples_preserved:
  "(continues C tmax tol)\<^sup>*\<^sup>* s sk \<Longrightarrow> samples_preserved s sk"
proof (induction rule: rtranclp_induct)
  case base
  show ?case by simp
next
  case (step y z)
  from step.hyps(2) have "iteration C tmax tol y = Some (Continue z)"
    by (simp add: continues_def)
  from iteration_Continue_sample(1)[OF this] have "samples_preserved y z"
    by (rule samples_preserved_sample_added)
  with step.IH show ?case by (rule samples_preserved_trans)
qed

lemma passes_continues:
  "passes n C tmax tol s = Some sk \<Longrightarrow> (continues C tmax tol)\<^sup>*\<^sup>* s sk"
proof (induction n arbitrary: s)
  case 0
  then show ?case by simp
next
  case (Suc n)
  from Suc.prems obtain s' where it: "iteration C tmax tol s = Some (Continue s')"
    and p: "passes n C tmax tol s' = Some sk"
    by (auto split: option.splits flow.splits)
  from it have "continues C tmax tol s s'" by (simp add: continues_def)
  from this Suc.IH[OF p] show ?case by (rule converse_rtranclp_into_rtranclp)
qed

text \<open>
  Claim C1, as stated, fails. \<^verbatim>\<open>simulate_to\<close> calls \<^verbatim>\<open>integrator.step()\<close> (line 119) with no
  handler around it, so what becomes of a model-domain error of the derivative function
  is up to the integrator class, and a class whose \<^verbatim>\<open>step()\<close> does not catch it, as
  \<^verbatim>\<open>RK45\<close>, lets it out of \<^verbatim>\<open>simulate_to\<close>. With the default integrator, output step 1 and
  an airspeed that falls by 200 per unit of time from 500, the call to time 5 records
  the samples at 0, 1 and 2 and then raises the model-domain error for the airspeed 50:
  it does not return with status \<open>failed\<close>.
\<close>

theorem step_exception_counterexample:
  "raised (simulate_to (demo_collab None (-200) False) 5 default_tol
       (rk45_engine (demo_collab None (-200) False) nominal 1 (3/4)))
     = Some (SimModelError Velocity 50)"
  by (simp add: rk45_defs run_defs simulate_to_def main_loop.simps raised_def)

text \<open>
  Claim C1, amended. Take a call of \<^verbatim>\<open>simulate_to\<close> that passes its assertions, has gone
  round the loop any number of times and has reached the engine state \<open>sk\<close>, where
  another sample is due; let the integrator make any number of steps that leave it
  running, and then a step that raises or that returns with another status than
  \<open>running\<close>. When the step raises, the exception propagates out of \<^verbatim>\<open>simulate_to\<close> to the
  caller, and the engine is left as \<open>sk\<close> with the integrator as it was before that step.
  When the step returns, with status \<open>failed\<close> or any other that is not \<open>running\<close>, the
  call returns normally and leaves \<open>sk\<close> with the integrator at that step and that
  status. In both cases every sample recorded before the call or during it is preserved.
\<close>

theorem step_failure_raises_or_stops:
  assumes pre: "cur_sim_time s0 \<le> tmax" "int_status (integrator s0) = ''running''"
    and reach: "(continues C tmax tol)\<^sup>*\<^sup>* (s0\<lparr>cur_sim_time := tmax\<rparr>) sk"
    and due: "times sk \<noteq> []" "next_step_time sk tmax tol < tmax + tol"
    and inner: "(running_step (integrator_class sk)
                   (der_func C (ap sk) (model_str sk) (v2_integrators sk))
                   (next_step_time sk tmax tol) tol)\<^sup>*\<^sup>* (integrator sk) Ij"
    and late: "next_step_time sk tmax tol \<ge> int_t Ij + tol"
    and stop: "\<forall>I'. ic_step (integrator_class sk)
                      (der_func C (ap sk) (model_str sk) (v2_integrators sk)) Ij = Inr I'
                 \<longrightarrow> int_status I' \<noteq> ''running''"
  shows "simulate_to C tmax tol s0 =
           Some (case ic_step (integrator_class sk)
                        (der_func C (ap sk) (model_str sk) (v2_integrators sk)) Ij of
                   Inl e \<Rightarrow> Inl (e, sk\<lparr>integrator := Ij\<rparr>)
                 | Inr I' \<Rightarrow> Inr (sk\<lparr>integrator := I'\<rparr>))
       \<and> samples_preserved s0 sk"
proof -
  let ?cls = "integrator_class sk"
  let ?der = "der_func C (ap sk) (model_str sk) (v2_integrators sk)"
  let ?nst = "next_step_time sk tmax tol"
  have steps: "advance_integrator ?cls ?der ?nst tol (integrator sk)
          = advance_integrator ?cls ?der ?nst tol Ij"
    using inner by (rule advance_running_steps)
  have loop: "main_loop C tmax tol (s0\<lparr>cur_sim_time := tmax\<rparr>) = main_loop C tmax tol sk"
    using reach by (rule main_loop_continues)
  have call: "simulate_to C tmax tol s0 = main_loop C tmax tol sk"
    using pre loop by (simp add: simulate_to_def)
  have kept: "samples_preserved s0 sk"
    using continues_samples_preserved[OF reach] by (simp add: samples_preserved_def)
  show ?thesis
  proof (cases "ic_step ?cls ?der Ij")
    case (Inl e)
    from advance_raises[OF late Inl] steps
    have "advance_integrator ?cls ?der ?nst tol (integrator sk) = Some (Inl (e, Ij))" by simp
    with due have "iteration C tmax tol sk = Some (Raise e (sk\<lparr>integrator := Ij\<rparr>))"
      by (simp add: iteration_def Let_def)
    from main_loop_Raise[OF this] call Inl kept show ?thesis by simp
  next
    case (Inr I')
    with stop have nr: "int_status I' \<noteq> ''running''" by simp
    from advance_stops[OF late Inr nr] steps
    have "advance_integrator ?cls ?der ?nst tol (integrator sk) = Some (Inr I')" by simp
    with due nr have "iteration C tmax tol sk = Some (Break (sk\<lparr>integrator := I'\<rparr>))"
      by (simp add: iteration_def Let_def)
    from main_loop_Break[OF this] call Inr kept show ?thesis by simp
  qed
qed

theorem step_failure_raises_or_stops_witness:
  "(\<exists>s'. simulate_to (demo_collab None (-200) False) 5 default_tol
            (rk45_engine (demo_collab None (-200) False) nominal 1 (3/4))
          = Some (Inl (SimModelError Velocity 50, s'))
        \<and> times s' = [0, 1, 2] \<and> length (states s') = 3
        \<and> int_status (integrator s') = ''running'')
   \<and> (\<exists>s'. simulate_to (demo_collab None (-200) False) 5 default_tol
            (demo_engine (demo_collab None (-200) False) nominal 1 False) = Some (Inr s')
        \<and> int_status (integrator s') = ''failed''
        \<and> times s' = [0, 1, 2] \<and> length (states s') = 3)"
proof -
  let ?C = "demo_collab None (-200) False"
  have dt: "0 < default_tol" "default_tol < 1/4" by (simp_all add: default_tol_def)
  have A: "\<exists>s'. simulate_to ?C 5 default_tol (rk45_engine ?C nominal 1 (3/4))
          = Some (Inl (SimModelError Velocity 50, s'))
        \<and> times s' = [0, 1, 2] \<and> length (states s') = 3
        \<and> int_status (integrator s') = ''running''"
  proof -
    let ?s = "rk45_engine ?C nominal 1 (3/4)"
    have "case passes (Suc (Suc 0)) ?C 5 default_tol (?s\<lparr>cur_sim_time := 5\<rparr>) of
            Some sk \<Rightarrow> times sk = [0, 1, 2] \<and> length (states sk) = 3
              \<and> integrator_class sk = RK45_like (3/4)
              \<and> next_step_time sk 5 default_tol = 3 \<and> int_t (integrator sk) = 9/4
              \<and> int_status (integrator sk) = ''running''
              \<and> rk45_like_step (3/4) (der_func ?C (ap sk) (model_str sk) (v2_integrators sk))
                  (integrator sk) = Inl (SimModelError Velocity 50)
          | None \<Rightarrow> False"
      by (simp add: rk45_defs run_defs)
    then obtain sk where p: "passes (Suc (Suc 0)) ?C 5 default_tol (?s\<lparr>cur_sim_time := 5\<rparr>) = Some sk"
      and ts: "times sk = [0, 1, 2]" and ls: "length (states sk) = 3"
      and cls: "integrator_class sk = RK45_like (3/4)"
      and nst: "next_step_time sk 5 default_tol = 3" and t: "int_t (integrator sk) = 9/4"
      and run: "int_status (integrator sk) = ''running''"
      and fail: "rk45_like_step (3/4) (der_func ?C (ap sk) (model_str sk) (v2_integrators sk))
                  (integrator sk) = Inl (SimModelError Velocity 50)"
      by (auto split: option.splits)
    have pre: "cur_sim_time ?s \<le> 5" "int_status (integrator ?s) = ''running''"
      by (simp_all add: rk45_defs der_func_def slice_def Let_def)
    have st: "ic_step (integrator_class sk) (der_func ?C (ap sk) (model_str sk) (v2_integrators sk))
                (integrator sk) = Inl (SimModelError Velocity 50)"
      using fail by (simp add: cls RK45_like_def)
    have due: "times sk \<noteq> []" "next_step_time sk 5 default_tol < 5 + default_tol"
      and late: "next_step_time sk 5 default_tol \<ge> int_t (integrator sk) + default_tol"
      unfolding nst t ts using dt by simp_all
    have stop: "\<forall>I'. ic_step (integrator_class sk)
                      (der_func ?C (ap sk) (model_str sk) (v2_integrators sk)) (integrator sk) = Inr I'
                 \<longrightarrow> int_status I' \<noteq> ''running''"
      unfolding st by simp
    from step_failure_raises_or_stops[OF pre passes_continues[OF p] due _ late stop]
    have "simulate_to ?C 5 default_tol ?s
            = Some (Inl (SimModelError Velocity 50, sk\<lparr>integrator := integrator sk\<rparr>))"
      unfolding st by simp
    with ts ls run show ?thesis by simp
  qed
  have B: "\<exists>s'. simulate_to ?C 5 default_tol (demo_engine ?C nominal 1 False) = Some (Inr s')
        \<and> int_status (integrator s') = ''failed''
        \<and> times s' = [0, 1, 2] \<and> length (states s') = 3"
  proof -
    let ?s = "demo_engine ?C nominal 1 False"
    have "case passes (Suc (Suc 0)) ?C 5 default_tol (?s\<lparr>cur_sim_time := 5\<rparr>) of
            Some sk \<Rightarrow> times sk = [0, 1, 2] \<and> length (states sk) = 3
              \<and> integrator_class sk = Euler
              \<and> next_step_time sk 5 default_tol = 3 \<and> int_t (integrator sk) = 2
              \<and> euler_scheme (der_func ?C (ap sk) (model_str sk) (v2_integrators sk)) (integrator sk)
                  = Inl (SimModelError Velocity 100)
          | None \<Rightarrow> False"
      by (simp add: eval_defs)
    then obtain sk where p: "passes (Suc (Suc 0)) ?C 5 default_tol (?s\<lparr>cur_sim_time := 5\<rparr>) = Some sk"
      and ts: "times sk = [0, 1, 2]" and ls: "length (states sk) = 3"
      and cls: "integrator_class sk = Euler"
      and nst: "next_step_time sk 5 default_tol = 3" and t: "int_t (integrator sk) = 2"
      and fail: "euler_scheme (der_func ?C (ap sk) (model_str sk) (v2_integrators sk)) (integrator sk)
                  = Inl (SimModelError Velocity 100)"
      by (auto split: option.splits)
    have pre: "cur_sim_time ?s \<le> 5" "int_status (integrator ?s) = ''running''"
      by (simp_all add: demo_defs Let_def)
    have st: "ic_step (integrator_class sk) (der_func ?C (ap sk) (model_str sk) (v2_integrators sk))
                (integrator sk) = Inr ((integrator sk)\<lparr>int_status := ''failed''\<rparr>)"
      using fail by (simp add: cls Euler_def step_of_scheme_def)
    have due: "times sk \<noteq> []" "next_step_time sk 5 default_tol < 5 + default_tol"
      and late: "next_step_time sk 5 default_tol \<ge> int_t (integrator sk) + default_tol"
      unfolding nst t ts using dt by simp_all
    have stop: "\<forall>I'. ic_step (integrator_class sk)
                      (der_func ?C (ap sk) (model_str sk) (v2_integrators sk)) (integrator sk) = Inr I'
                 \<longrightarrow> int_status I' \<noteq> ''running''"
      unfolding st by auto
    from step_failure_raises_or_stops[OF pre passes_continues[OF p] due _ late stop]
    have "simulate_to ?C 5 default_tol ?s
            = Some (Inr (sk\<lparr>integrator := (integrator sk)\<lparr>int_status := ''failed''\<rparr>\<rparr>))"
      unfolding st by simp
    with ts ls show ?thesis by simp
  qed
  from A B show ?thesis by blast
qed

end
